theory Spec2Isabelle
  imports Complex_Main
begin

section \<open>The stippling relaxation of script.js\<close>

text \<open>
  The page script.js keeps its state in module-level variables and changes it in two
  functions: \<open>startSimulation\<close> (rejection sampling of the initial points, lines 78-100)
  and \<open>animate\<close> (one weighted Lloyd iteration, lines 110-190). This theory embeds both.

  Conventions of the embedding.
  \<^item> A JavaScript Number that holds a coordinate or a weight is a \<open>real\<close>: the arithmetic
    is exact, rounding is not modelled. Pixel indices and counts are \<open>nat\<close> or \<open>int\<close>.
  \<^item> \<open>Math.random()\<close> is an explicit sequence \<open>rnd :: nat \<Rightarrow> real\<close>; the state counts how
    many values have been drawn.
  \<^item> \<open>requestAnimationFrame\<close> / \<open>cancelAnimationFrame\<close> are a set of pending request ids
    and a counter that hands out fresh ids.
  \<^item> \<open>Delaunay.from(points).find\<close> belongs to the library d3-delaunay and not to the
    script; it is a parameter \<open>fnd\<close> of every function that calls it.
  \<^item> Drawing on the canvas is not modelled. Of the status text the model keeps the
    number it shows after \<open>Max motion:\<close>, and nothing when it shows none.
\<close>

subsection \<open>State\<close>

datatype js_error = RangeError | TypeError

text \<open>
  How a call ends. \<open>Returned s\<close>: the call returned and left the state \<open>s\<close>.
  \<open>Threw e s\<close>: the exception \<open>e\<close> left the call, the variables holding \<open>s\<close>.
  \<open>NotANumber\<close>: a read of \<open>density\<close> outside its range gave \<open>undefined\<close> and the script
  went on to add \<open>x * undefined\<close>, which is NaN, to its sums; reals have no NaN, so the
  model stops there and says nothing about the rest of that call.
\<close>

datatype 'a outcome = Returned 'a | Threw js_error 'a | NotANumber

text \<open>
  \<open>width\<close> and \<open>height\<close> are \<open>undefined\<close> until an image is loaded; the only test the
  script makes on them is \<open>!width || !height\<close>, which \<open>undefined\<close> and \<open>0\<close> answer alike, so
  both are the number 0 here. \<open>nPoints\<close> is what \<open>parseInt\<close> returned, taken to be an
  integer. \<open>animationId\<close> is \<open>undefined\<close> (\<open>None\<close>) until the first request.
  The last five fields are the environment: the number of \<open>Math.random()\<close> values
  consumed, the animation frame requests that are pending, the next fresh request id,
  the value of the local \<open>maxDistMoved\<close> when the status line was last written by
  \<open>animate\<close>, and the number the status line shows: \<open>None\<close> before any run and while it
  shows the text of line 82, which has no metric.
\<close>

record state =
  width :: nat
  height :: nat
  points :: "(real \<times> real) list"
  nPoints :: int
  density :: "real list"
  isRunning :: bool
  animationId :: "nat option"
  draws :: nat
  pending :: "nat set"
  nextFrame :: nat
  maxDistMoved :: real
  status :: "real option"

text \<open>
  The variables as the script initialises them (lines 10-15); \<open>nPoints\<close> starts at 2000.
\<close>

definition initial_state :: state where
  "initial_state =
     \<lparr>width = 0, height = 0, points = [], nPoints = 2000, density = [],
      isRunning = False, animationId = None, draws = 0, pending = {}, nextFrame = 0,
      maxDistMoved = 0, status = None\<rparr>"

subsection \<open>The status line\<close>

text \<open>
  Line 187 shows \<open>Math.sqrt(maxDistMoved).toFixed(2)\<close>. \<open>toFixed(2)\<close> of a number that is
  not negative (and below 10 to the 21) is the decimal \<open>n / 100\<close> for the integer \<open>n\<close> nearest to a hundred times the
  number, the larger one of two that are equally near; the digits are kept as the number
  they denote.
\<close>

definition toFixed2 :: "real \<Rightarrow> real" where
  "toFixed2 x = real_of_int \<lfloor>x * 100 + 1 / 2\<rfloor> / 100"

subsection \<open>Reading the density array\<close>

text \<open>
  \<open>density[idx]\<close>: a read outside the array gives \<open>undefined\<close> (\<open>None\<close>) in JavaScript.
\<close>

definition density_read :: "real list \<Rightarrow> int \<Rightarrow> real option" where
  "density_read dens idx =
     (if 0 \<le> idx \<and> idx < int (length dens) then Some (dens ! nat idx) else None)"

text \<open>Line 91: \<open>Math.floor(y) * width + Math.floor(x)\<close>.\<close>

definition sample_idx :: "nat \<Rightarrow> real \<Rightarrow> real \<Rightarrow> int" where
  "sample_idx W x y = \<lfloor>y\<rfloor> * int W + \<lfloor>x\<rfloor>"

text \<open>Line 134: \<open>y * width + x\<close>.\<close>

definition pixel_idx :: "nat \<Rightarrow> nat \<Rightarrow> nat \<Rightarrow> int" where
  "pixel_idx W x y = int (y * W + x)"

text \<open>
  \<open>Math.random() > d\<close> (line 93): a comparison with \<open>undefined\<close> is false.
\<close>

definition js_gt :: "real \<Rightarrow> real option \<Rightarrow> bool" where
  "js_gt r d = (case d of None \<Rightarrow> False | Some v \<Rightarrow> r > v)"

subsection \<open>startSimulation: rejection sampling\<close>

text \<open>
  One attempt of the do-while loop of lines 88-93, starting at draw number \<open>k\<close>: it draws
  \<open>x\<close>, \<open>y\<close> and the threshold, in this order. \<open>accepted\<close> says that the loop condition
  is false after this attempt, so the loop ends.
\<close>

definition candidate :: "(nat \<Rightarrow> real) \<Rightarrow> nat \<Rightarrow> nat \<Rightarrow> nat \<Rightarrow> real \<times> real" where
  "candidate rnd W H k = (rnd k * real W, rnd (k + 1) * real H)"

definition accepted :: "(nat \<Rightarrow> real) \<Rightarrow> nat \<Rightarrow> nat \<Rightarrow> real list \<Rightarrow> nat \<Rightarrow> bool" where
  "accepted rnd W H dens k =
     (\<not> js_gt (rnd (k + 2))
          (density_read dens (sample_idx W (fst (candidate rnd W H k)) (snd (candidate rnd W H k)))))"

text \<open>
  The do-while loop. Nothing bounds the number of attempts, so the loop is a partial
  function: \<open>None\<close> is the run that never leaves the loop. The result is the point and
  the number of draws consumed.
\<close>

partial_function (option) sample_site ::
  "(nat \<Rightarrow> real) \<Rightarrow> nat \<Rightarrow> nat \<Rightarrow> real list \<Rightarrow> nat \<Rightarrow> ((real \<times> real) \<times> nat) option" where
  "sample_site rnd W H dens k =
     (if accepted rnd W H dens k then Some (candidate rnd W H k, k + 3)
      else sample_site rnd W H dens (k + 3))"

text \<open>
  The for loop of lines 86-95; the first number is how many sites are still to be
  placed (\<open>nPoints - i\<close>).
\<close>

fun sample_points ::
  "(nat \<Rightarrow> real) \<Rightarrow> nat \<Rightarrow> nat \<Rightarrow> real list \<Rightarrow> nat \<Rightarrow> (real \<times> real) list \<Rightarrow> nat
     \<Rightarrow> ((real \<times> real) list \<times> nat) option" where
  "sample_points rnd W H dens 0 pts k = Some (pts, k)"
| "sample_points rnd W H dens (Suc m) pts k =
     (case sample_site rnd W H dens k of
        None \<Rightarrow> None
      | Some (p, k') \<Rightarrow> sample_points rnd W H dens m (pts @ [p]) k')"

subsection \<open>animate: the accumulator sweep\<close>

text \<open>
  The buffers of lines 122-127: \<open>newPoints\<close> is flat, the sums of site \<open>i\<close> are at
  \<open>2 * i\<close> and \<open>2 * i + 1\<close>.
\<close>

record acc =
  nextIndex :: nat
  newPoints :: "real list"
  weights :: "real list"

definition fresh_acc :: "nat \<Rightarrow> acc" where
  "fresh_acc n = \<lparr>nextIndex = 0, newPoints = replicate (n * 2) 0, weights = replicate n 0\<rparr>"

text \<open>The pixels in the order of the two nested loops of lines 132-133.\<close>

definition pixels :: "nat \<Rightarrow> nat \<Rightarrow> (nat \<times> nat) list" where
  "pixels W H = concat (map (\<lambda>y. map (\<lambda>x. (x, y)) [0..<W]) [0..<H])"

text \<open>
  Lines 143-145 for the site \<open>i\<close>. A write to a typed array outside its range is dropped,
  which is what \<open>list_update\<close> does; the value read there is then never stored.
\<close>

definition add_mass :: "acc \<Rightarrow> nat \<Rightarrow> nat \<Rightarrow> nat \<Rightarrow> real \<Rightarrow> acc" where
  "add_mass a i x y w =
     (let np1 = (newPoints a)[i * 2 := newPoints a ! (i * 2) + real x * w];
          np2 = np1[i * 2 + 1 := np1 ! (i * 2 + 1) + real y * w]
      in \<lparr>nextIndex = i, newPoints = np2, weights = (weights a)[i := weights a ! i + w]\<rparr>)"

text \<open>
  The body of the loops, lines 134-145, over a list of pixels. \<open>fnd x y hint\<close> is
  \<open>delaunay.find(x, y, nextIndex)\<close>. \<open>undefined <= 0\<close> is false, so a read outside the
  array is not skipped and its NaN reaches the sums: \<open>None\<close> stands for \<open>NotANumber\<close>.
\<close>

fun sweep ::
  "(real \<Rightarrow> real \<Rightarrow> nat \<Rightarrow> nat) \<Rightarrow> real list \<Rightarrow> nat \<Rightarrow> (nat \<times> nat) list \<Rightarrow> acc \<Rightarrow> acc option" where
  "sweep fnd dens W [] a = Some a"
| "sweep fnd dens W ((x, y) # ps) a =
     (case density_read dens (pixel_idx W x y) of
        None \<Rightarrow> None
      | Some w \<Rightarrow>
          if w \<le> 0 then sweep fnd dens W ps a
          else sweep fnd dens W ps (add_mass a (fnd (real x) (real y) (nextIndex a)) x y w))"

text \<open>
  Lines 122-147 on the state: the buffers are allocated for \<open>nPoints\<close> sites and the
  sweep runs over the whole image, \<open>fnd (points s)\<close> being the \<open>find\<close> of the
  triangulation built from the current points (line 115).
\<close>

type_synonym finder = "(real \<times> real) list \<Rightarrow> real \<Rightarrow> real \<Rightarrow> nat \<Rightarrow> nat"

definition accumulate :: "finder \<Rightarrow> state \<Rightarrow> acc option" where
  "accumulate fnd s =
     sweep (fnd (points s)) (density s) (width s) (pixels (width s) (height s))
       (fresh_acc (nat (nPoints s)))"

subsection \<open>animate: the relaxation step\<close>

text \<open>
  The loop of lines 151-167 over the indices \<open>is\<close>, with the points and the running
  \<open>maxDistMoved\<close>. \<open>points[i]\<close> is \<open>undefined\<close> when \<open>i\<close> is not an index of \<open>points\<close>, and
  reading \<open>[0]\<close> of it throws a TypeError; the points moved before that stay moved.
  The loop is only run on indices below the length of \<open>weights\<close> (see \<open>animate\<close>).
\<close>

fun relax ::
  "acc \<Rightarrow> nat list \<Rightarrow> (real \<times> real) list \<Rightarrow> real
     \<Rightarrow> js_error option \<times> (real \<times> real) list \<times> real" where
  "relax a [] pts m = (None, pts, m)"
| "relax a (i # is) pts m =
     (let w = weights a ! i in
      if w > 0 then
        if i < length pts then
          let nx = newPoints a ! (i * 2) / w;
              ny = newPoints a ! (i * 2 + 1) / w;
              dx = nx - fst (pts ! i);
              dy = ny - snd (pts ! i);
              dist = dx * dx + dy * dy
          in relax a is (pts[i := (nx, ny)]) (if dist > m then dist else m)
        else (Some TypeError, pts, m)
      else relax a is pts m)"

text \<open>
  \<open>animate\<close>, lines 110-190. \<open>new Float64Array(n)\<close> throws a RangeError for a negative
  \<open>n\<close>. The drawing loop of lines 176-180 reads \<open>points[i][0]\<close> for every \<open>i < nPoints\<close>, so
  it throws a TypeError when \<open>points\<close> is shorter than that. At the end the next frame is
  requested and its id stored; just before, line 187 writes the status line.
\<close>

definition animate :: "finder \<Rightarrow> state \<Rightarrow> state outcome" where
  "animate fnd s =
     (if \<not> isRunning s then Returned s
      else if nPoints s < 0 then Threw RangeError s
      else
        case accumulate fnd s of
          None \<Rightarrow> NotANumber
        | Some a \<Rightarrow>
            (case relax a [0..<nat (nPoints s)] (points s) 0 of
               (Some e, pts, m) \<Rightarrow> Threw e (s\<lparr>points := pts\<rparr>)
             | (None, pts, m) \<Rightarrow>
                 if length pts < nat (nPoints s) then Threw TypeError (s\<lparr>points := pts\<rparr>)
                 else Returned
                        (s\<lparr>points := pts, maxDistMoved := m,
                           status := Some (toFixed2 (sqrt m)),
                           animationId := Some (nextFrame s),
                           pending := insert (nextFrame s) (pending s),
                           nextFrame := Suc (nextFrame s)\<rparr>)))"

subsection \<open>startSimulation\<close>

text \<open>
  Lines 78-100; \<open>n\<close> is the value \<open>parseInt(pointInput.value)\<close>. Line 82 replaces the
  status text by one without a metric. \<open>None\<close>: the call never
  returns, because a rejection loop never ends. \<open>cancelAnimationFrame\<close> removes the
  request from the pending ones and does nothing for an id that is not pending or is
  \<open>undefined\<close>.
\<close>

definition startSimulation :: "finder \<Rightarrow> (nat \<Rightarrow> real) \<Rightarrow> int \<Rightarrow> state \<Rightarrow> state outcome option" where
  "startSimulation fnd rnd n s =
     (if width s = 0 \<or> height s = 0 then Some (Returned s)
      else
        case sample_points rnd (width s) (height s) (density s) (nat n) [] (draws s) of
          None \<Rightarrow> None
        | Some (pts, k) \<Rightarrow>
            let s1 = s\<lparr>nPoints := n, status := None, points := pts, draws := k\<rparr>;
                s2 = (if isRunning s1
                      then s1\<lparr>pending := pending s1 - set_option (animationId s1)\<rparr> else s1)
            in Some (animate fnd (s2\<lparr>isRunning := True\<rparr>)))"

subsection \<open>The host: animation frames and events\<close>

text \<open>
  The browser runs the callback of a pending request once and alone: the script has no
  \<open>await\<close> inside \<open>animate\<close> or \<open>startSimulation\<close>, so neither is ever interleaved with
  another call.
\<close>

definition frame :: "finder \<Rightarrow> nat \<Rightarrow> state \<Rightarrow> state outcome" where
  "frame fnd fid s = animate fnd (s\<lparr>pending := pending s - {fid}\<rparr>)"

text \<open>The variables a call leaves behind, when the model follows it to its end.\<close>

fun final :: "'a outcome \<Rightarrow> 'a option" where
  "final (Returned s) = Some s"
| "final (Threw e s) = Some s"
| "final NotANumber = None"

text \<open>
  What can happen to the page: a call of \<open>startSimulation\<close> (the slider, line 106), an
  image load that sets \<open>width\<close>, \<open>height\<close> and a density array of \<open>width * height\<close>
  entries and then calls \<open>startSimulation\<close> (lines 54-75), an image load that stops after
  line 55 because \<open>getImageData\<close> refuses an empty rectangle, and the browser running a
  pending animation frame.
\<close>

inductive step :: "finder \<Rightarrow> (nat \<Rightarrow> real) \<Rightarrow> state \<Rightarrow> state \<Rightarrow> bool" for fnd rnd where
  step_start:
    "startSimulation fnd rnd n s = Some out \<Longrightarrow> final out = Some s' \<Longrightarrow> step fnd rnd s s'"
| step_load:
    "length d = W * H \<Longrightarrow>
     startSimulation fnd rnd n (s\<lparr>width := W, height := H, density := d\<rparr>) = Some out \<Longrightarrow>
     final out = Some s' \<Longrightarrow> step fnd rnd s s'"
| step_load_failed:
    "W = 0 \<or> H = 0 \<Longrightarrow> step fnd rnd s (s\<lparr>width := W, height := H\<rparr>)"
| step_frame:
    "fid \<in> pending s \<Longrightarrow> final (frame fnd fid s) = Some s' \<Longrightarrow> step fnd rnd s s'"

inductive steps :: "finder \<Rightarrow> (nat \<Rightarrow> real) \<Rightarrow> state \<Rightarrow> state \<Rightarrow> bool" for fnd rnd where
  steps_refl: "steps fnd rnd s s"
| steps_step: "steps fnd rnd s s' \<Longrightarrow> step fnd rnd s' s'' \<Longrightarrow> steps fnd rnd s s''"

definition reachable :: "finder \<Rightarrow> (nat \<Rightarrow> real) \<Rightarrow> state \<Rightarrow> bool" where
  "reachable fnd rnd s = steps fnd rnd initial_state s"

text \<open>
  The first \<open>k\<close> animation frames of a run, each the callback of the request stored in
  \<open>animationId\<close>; it stops at the first frame that does not return.
\<close>

fun run_frames :: "finder \<Rightarrow> nat \<Rightarrow> state \<Rightarrow> state outcome" where
  "run_frames fnd 0 s = Returned s"
| "run_frames fnd (Suc k) s =
     (case animationId s of
        None \<Rightarrow> Returned s
      | Some fid \<Rightarrow>
          if fid \<in> pending s then
            (case frame fnd fid s of
               Returned s' \<Rightarrow> run_frames fnd k s'
             | Threw e s' \<Rightarrow> Threw e s'
             | NotANumber \<Rightarrow> NotANumber)
          else Returned s)"

subsection \<open>The nearest-site query\<close>

text \<open>
  Modelled from the spec: \<open>Delaunay.find\<close> of d3-delaunay is missing from the sources.
  Section 4.2 of the specification asks for the index of the site nearest to the query
  point, ties in distance broken by the lowest site index; the hint only says where the
  search starts and does not change the answer. With no site at all the answer is no
  index of a buffer (0 here, on buffers of length 0).
\<close>

definition dist2 :: "real \<times> real \<Rightarrow> real \<Rightarrow> real \<Rightarrow> real" where
  "dist2 p x y = (x - fst p) * (x - fst p) + (y - snd p) * (y - snd p)"

fun nearest_scan :: "real \<Rightarrow> real \<Rightarrow> (real \<times> real) list \<Rightarrow> nat \<Rightarrow> nat \<Rightarrow> real \<Rightarrow> nat" where
  "nearest_scan x y [] i best bd = best"
| "nearest_scan x y (p # ps) i best bd =
     (if dist2 p x y < bd then nearest_scan x y ps (Suc i) i (dist2 p x y)
      else nearest_scan x y ps (Suc i) best bd)"

definition nearest_site :: finder where
  "nearest_site pts x y hint =
     (case pts of [] \<Rightarrow> 0 | p # ps \<Rightarrow> nearest_scan x y ps 1 0 (dist2 p x y))"

text \<open>
  The \<open>find\<close> of d3-delaunay starts at the hinted site and walks to a site that is
  strictly nearer to the query point until there is none, so where the hinted site is
  as near as any other it answers the hinted site. This finder answers with a nearest
  site too, and keeps the hinted site whenever it is among the nearest.
\<close>

definition hinted_nearest :: finder where
  "hinted_nearest pts x y hint =
     (let best = nearest_site pts x y hint
      in if hint < length pts \<and> dist2 (pts ! hint) x y \<le> dist2 (pts ! best) x y then hint
         else best)"

subsection \<open>The sweep without the skip\<close>

text \<open>
  Section 4.3 of the specification calls the skip of zero-weight locations a pure
  optimisation. This is the sweep it is compared with: the same loop body at every
  location, none skipped, the hint advancing at each.
\<close>

fun sweep_all ::
  "(real \<Rightarrow> real \<Rightarrow> nat \<Rightarrow> nat) \<Rightarrow> real list \<Rightarrow> nat \<Rightarrow> (nat \<times> nat) list \<Rightarrow> acc \<Rightarrow> acc option" where
  "sweep_all fnd dens W [] a = Some a"
| "sweep_all fnd dens W ((x, y) # ps) a =
     (case density_read dens (pixel_idx W x y) of
        None \<Rightarrow> None
      | Some w \<Rightarrow> sweep_all fnd dens W ps (add_mass a (fnd (real x) (real y) (nextIndex a)) x y w))"

subsection \<open>Vocabulary of the properties\<close>

text \<open>The squared Euclidean distance of two positions.\<close>

definition sqdist :: "real \<times> real \<Rightarrow> real \<times> real \<Rightarrow> real" where
  "sqdist p q = (fst q - fst p) * (fst q - fst p) + (snd q - snd p) * (snd q - snd p)"

text \<open>A position inside the domain [0, W) x [0, H).\<close>

definition in_domain :: "nat \<Rightarrow> nat \<Rightarrow> real \<times> real \<Rightarrow> bool" where
  "in_domain W H p = (0 \<le> fst p \<and> fst p < real W \<and> 0 \<le> snd p \<and> snd p < real H)"

text \<open>\<open>Math.random()\<close> returns a number in [0, 1).\<close>

definition unit_draws :: "(nat \<Rightarrow> real) \<Rightarrow> bool" where
  "unit_draws rnd = (\<forall>i. 0 \<le> rnd i \<and> rnd i < 1)"

text \<open>
  The position of site \<open>i\<close> after the relaxation step, from the sums of the sweep: the
  weighted centroid when the weight-sum is positive, the old position otherwise.
\<close>

definition new_position :: "acc \<Rightarrow> (real \<times> real) list \<Rightarrow> nat \<Rightarrow> real \<times> real" where
  "new_position a pts i =
     (if 0 < weights a ! i
      then (newPoints a ! (i * 2) / weights a ! i, newPoints a ! (i * 2 + 1) / weights a ! i)
      else pts ! i)"

text \<open>
  The invariant of the sweep for \<open>n\<close> sites on a W by H image: the buffers have the
  lengths they were allocated with, no weight-sum is negative, and each position-sum
  lies between 0 and the weight-sum times the largest pixel coordinate.
\<close>

definition acc_ok :: "nat \<Rightarrow> nat \<Rightarrow> nat \<Rightarrow> acc \<Rightarrow> bool" where
  "acc_ok n W H a =
     (length (weights a) = n \<and> length (newPoints a) = n * 2 \<and>
      (\<forall>i<n. 0 \<le> weights a ! i
         \<and> 0 \<le> newPoints a ! (i * 2) \<and> newPoints a ! (i * 2) \<le> (real W - 1) * weights a ! i
         \<and> 0 \<le> newPoints a ! (i * 2 + 1) \<and> newPoints a ! (i * 2 + 1) \<le> (real H - 1) * weights a ! i))"

text \<open>
  A run in progress on the field \<open>d\<close> of W by H weights: the state of the variables
  between two animation frames, with the next frame requested.
\<close>

definition run_ok :: "nat \<Rightarrow> nat \<Rightarrow> real list \<Rightarrow> state \<Rightarrow> bool" where
  "run_ok W H d s =
     (isRunning s \<and> width s = W \<and> height s = H \<and> density s = d \<and> length d = W * H
      \<and> int (length (points s)) = nPoints s \<and> list_all (in_domain W H) (points s)
      \<and> (\<exists>fid. animationId s = Some fid \<and> fid \<in> pending s))"

text \<open>
  The scheduling invariant of the page: a pending animation frame is the one stored in
  \<open>animationId\<close>, its id is older than the next fresh id, and frames are only pending
  while \<open>isRunning\<close> is set.
\<close>

definition sched_inv :: "state \<Rightarrow> bool" where
  "sched_inv s =
     ((\<forall>fid\<in>pending s. fid < nextFrame s \<and> animationId s = Some fid)
      \<and> (pending s = {} \<or> isRunning s))"

section \<open>Index arithmetic\<close>

lemma toFixed2_zero [simp]: "toFixed2 0 = 0"
  by (simp add: toFixed2_def)

lemma sqrt_half_bounds: "141 / 200 \<le> sqrt (1 / 2)" "sqrt (1 / 2) < 143 / 200"
proof -
  have "(141 / 200 :: real)\<^sup>2 \<le> 1 / 2" by (simp add: power2_eq_square)
  then show "141 / 200 \<le> sqrt (1 / 2)" by (rule real_le_rsqrt)
  have "(1 / 2 :: real) < (143 / 200)\<^sup>2" by (simp add: power2_eq_square)
  then show "sqrt (1 / 2) < 143 / 200" by (intro real_less_lsqrt) simp_all
qed

lemma toFixed2_sqrt_half [simp]: "toFixed2 (sqrt (1 / 2)) = 71 / 100"
proof -
  have "\<lfloor>sqrt (1 / 2) * 100 + 1 / 2\<rfloor> = 71"
    using sqrt_half_bounds by (intro floor_unique) simp_all
  then show ?thesis by (simp add: toFixed2_def)
qed

lemma pixel_idx_bound:
  fixes x y W H :: nat
  assumes "x < W" "y < H"
  shows "y * W + x < W * H"
proof -
  have "y * W + x < y * W + W" using assms(1) by simp
  also have "\<dots> = (Suc y) * W" by simp
  also have "\<dots> \<le> H * W" using assms(2) by (intro mult_le_mono1) simp
  finally show ?thesis by (simp add: mult.commute)
qed

lemma sample_idx_bound:
  assumes "0 \<le> x" "x < real W" "0 \<le> y" "y < real H"
  shows "0 \<le> sample_idx W x y \<and> sample_idx W x y < int (W * H)"
proof -
  have fx: "0 \<le> \<lfloor>x\<rfloor>" "\<lfloor>x\<rfloor> < int W" using assms(1,2) by (simp_all add: floor_less_iff)
  have fy: "0 \<le> \<lfloor>y\<rfloor>" "\<lfloor>y\<rfloor> < int H" using assms(3,4) by (simp_all add: floor_less_iff)
  have "nat \<lfloor>y\<rfloor> * W + nat \<lfloor>x\<rfloor> < W * H"
    using fx fy by (intro pixel_idx_bound) (simp_all add: nat_less_iff)
  then have "int (nat \<lfloor>y\<rfloor> * W + nat \<lfloor>x\<rfloor>) < int (W * H)" by (simp only: of_nat_less_iff)
  moreover have "int (nat \<lfloor>y\<rfloor> * W + nat \<lfloor>x\<rfloor>) = \<lfloor>y\<rfloor> * int W + \<lfloor>x\<rfloor>"
    using fx(1) fy(1) by simp
  ultimately show ?thesis using fx(1) fy(1) by (simp add: sample_idx_def)
qed

section \<open>The sampler\<close>

lemma idx_shift: "k + 3 + 3 * j = k + 3 * Suc j"
  by simp

lemma sample_site_first_accept:
  assumes "accepted rnd W H dens (k + 3 * j)" "\<forall>i<j. \<not> accepted rnd W H dens (k + 3 * i)"
  shows "sample_site rnd W H dens k = Some (candidate rnd W H (k + 3 * j), k + 3 * j + 3)"
  using assms
proof (induction j arbitrary: k)
  case 0
  then show ?case by (subst sample_site.simps) simp
next
  case (Suc j)
  have "\<not> accepted rnd W H dens (k + 3 * 0)"
    using Suc.prems(2) [rule_format, of 0] by simp
  then have n: "\<not> accepted rnd W H dens k" by simp
  have a: "accepted rnd W H dens (k + 3 + 3 * j)"
    using Suc.prems(1) by (simp only: idx_shift)
  have b: "\<forall>i<j. \<not> accepted rnd W H dens (k + 3 + 3 * i)"
  proof (intro allI impI)
    fix i assume "i < j"
    then have "Suc i < Suc j" by simp
    then have "\<not> accepted rnd W H dens (k + 3 * Suc i)"
      by (rule Suc.prems(2) [rule_format])
    then show "\<not> accepted rnd W H dens (k + 3 + 3 * i)" by (simp only: idx_shift simp_thms)
  qed
  have "sample_site rnd W H dens (k + 3) = Some (candidate rnd W H (k + 3 + 3 * j), k + 3 + 3 * j + 3)"
    using Suc.IH [OF a b] .
  then have "sample_site rnd W H dens (k + 3) = Some (candidate rnd W H (k + 3 * Suc j), k + 3 * Suc j + 3)"
    by (simp only: idx_shift)
  then show ?case using n by (subst sample_site.simps) (simp only: if_False)
qed

lemma sample_site_returns_accept:
  assumes "sample_site rnd W H dens k = Some r"
  shows "\<exists>j. accepted rnd W H dens (k + 3 * j) \<and> (\<forall>i<j. \<not> accepted rnd W H dens (k + 3 * i))
            \<and> r = (candidate rnd W H (k + 3 * j), k + 3 * j + 3)"
proof -
  let ?P = "\<lambda>rnd W H dens k r.
      \<exists>j. accepted rnd W H dens (k + 3 * j) \<and> (\<forall>i<j. \<not> accepted rnd W H dens (k + 3 * i))
            \<and> r = (candidate rnd W H (k + 3 * j), k + 3 * j + 3)"
  have "?P rnd W H dens k r"
  proof (rule sample_site.raw_induct [where P = ?P, OF _ assms])
    fix f :: "(nat \<Rightarrow> real) \<Rightarrow> nat \<Rightarrow> nat \<Rightarrow> real list \<Rightarrow> nat \<Rightarrow> ((real \<times> real) \<times> nat) option"
    fix rnd W H dens k r
    assume IH: "\<And>rnd W H dens k r. f rnd W H dens k = Some r \<Longrightarrow> ?P rnd W H dens k r"
      and eq: "(if accepted rnd W H dens k then Some (candidate rnd W H k, k + 3)
                else f rnd W H dens (k + 3)) = Some r"
    show "?P rnd W H dens k r"
    proof (cases "accepted rnd W H dens k")
      case True
      then have "r = (candidate rnd W H k, k + 3)" using eq by simp
      then have "accepted rnd W H dens (k + 3 * 0) \<and> (\<forall>i<0. \<not> accepted rnd W H dens (k + 3 * i))
            \<and> r = (candidate rnd W H (k + 3 * 0), k + 3 * 0 + 3)" using True by simp
      then show ?thesis by (rule exI)
    next
      case False
      then have "f rnd W H dens (k + 3) = Some r" using eq by (simp only: if_False)
      from IH [OF this] obtain j where j: "accepted rnd W H dens (k + 3 + 3 * j)"
        "\<forall>i<j. \<not> accepted rnd W H dens (k + 3 + 3 * i)"
        "r = (candidate rnd W H (k + 3 + 3 * j), k + 3 + 3 * j + 3)" by (elim exE conjE)
      have c: "\<forall>i<Suc j. \<not> accepted rnd W H dens (k + 3 * i)"
      proof (intro allI impI)
        fix i assume i: "i < Suc j"
        show "\<not> accepted rnd W H dens (k + 3 * i)"
        proof (cases i)
          case 0 then show ?thesis using False by simp
        next
          case (Suc i')
          then have "i' < j" using i by simp
          then have "\<not> accepted rnd W H dens (k + 3 + 3 * i')"
            by (rule j(2) [rule_format])
          then show ?thesis unfolding Suc by (simp only: idx_shift simp_thms)
        qed
      qed
      have "accepted rnd W H dens (k + 3 * Suc j) \<and> (\<forall>i<Suc j. \<not> accepted rnd W H dens (k + 3 * i))
            \<and> r = (candidate rnd W H (k + 3 * Suc j), k + 3 * Suc j + 3)"
        using j(1,3) c by (simp only: idx_shift simp_thms)
      then show ?thesis by (rule exI)
    qed
  qed
  then show ?thesis .
qed


text \<open>
  C1 (amended). The rejection loop of a site has no retry cap and no fallback to a
  uniform position. It never returns exactly when no attempt is accepted, and when some
  attempt is accepted the site is the candidate of the first accepted attempt (attempt
  \<open>j\<close> uses the draws \<open>k + 3 * j\<close>, \<open>k + 3 * j + 1\<close> and \<open>k + 3 * j + 2\<close>).
\<close>

theorem sampler_terminates_iff_accepted:
  "(sample_site rnd W H dens k = None) = (\<forall>j. \<not> accepted rnd W H dens (k + 3 * j))
   \<and> (\<forall>j. accepted rnd W H dens (k + 3 * j) \<and> (\<forall>i<j. \<not> accepted rnd W H dens (k + 3 * i)) \<longrightarrow>
          sample_site rnd W H dens k = Some (candidate rnd W H (k + 3 * j), k + 3 * j + 3))"
proof (intro conjI allI impI iffI)
  fix j
  assume n: "sample_site rnd W H dens k = None"
  show "\<not> accepted rnd W H dens (k + 3 * j)"
  proof
    assume "accepted rnd W H dens (k + 3 * j)"
    then have ex: "\<exists>j. accepted rnd W H dens (k + 3 * j)" by (rule exI)
    define j0 where "j0 = (LEAST j. accepted rnd W H dens (k + 3 * j))"
    have a: "accepted rnd W H dens (k + 3 * j0)"
      unfolding j0_def using ex by (rule LeastI_ex)
    have b: "\<forall>i<j0. \<not> accepted rnd W H dens (k + 3 * i)"
      unfolding j0_def using not_less_Least by blast
    show False using sample_site_first_accept [OF a b] n by simp
  qed
next
  assume na: "\<forall>j. \<not> accepted rnd W H dens (k + 3 * j)"
  show "sample_site rnd W H dens k = None"
  proof (cases "sample_site rnd W H dens k")
    case None then show ?thesis .
  next
    case (Some r)
    from sample_site_returns_accept [OF Some] na show ?thesis by blast
  qed
next
  fix j
  assume "accepted rnd W H dens (k + 3 * j) \<and> (\<forall>i<j. \<not> accepted rnd W H dens (k + 3 * i))"
  then show "sample_site rnd W H dens k = Some (candidate rnd W H (k + 3 * j), k + 3 * j + 3)"
    by (intro sample_site_first_accept) simp_all
qed

lemma accepted_eval:
  "accepted rnd W H dens k =
     (\<not> js_gt (rnd (k + 2)) (density_read dens (\<lfloor>rnd (k + 1) * real H\<rfloor> * int W + \<lfloor>rnd k * real W\<rfloor>)))"
  by (simp add: accepted_def candidate_def sample_idx_def)

theorem sampler_terminates_iff_accepted_witness:
  "sample_site (\<lambda>i. if i = 2 then 3 / 4 else 1 / 4) 1 1 [1 / 2] 0 = Some ((1 / 4, 1 / 4), 6)"
proof -
  let ?rnd = "\<lambda>i::nat. if i = 2 then 3 / 4 else 1 / 4 :: real"
  have a: "accepted ?rnd 1 1 [1 / 2] (0 + 3 * 1)"
    by (simp add: accepted_eval js_gt_def density_read_def)
  have b: "\<forall>i<1. \<not> accepted ?rnd 1 1 [1 / 2] (0 + 3 * i)"
    by (simp add: accepted_eval js_gt_def density_read_def)
  have "sample_site ?rnd 1 1 [1 / 2] 0 = Some (candidate ?rnd 1 1 (0 + 3 * 1), 0 + 3 * 1 + 3)"
    using sampler_terminates_iff_accepted [of ?rnd 1 1 "[1 / 2]" 0] a b by blast
  then show ?thesis by (simp add: candidate_def)
qed

text \<open>
  C1 as the specification states it fails on a field that is zero everywhere: with
  every draw equal to 1/2 the candidate is (0.5, 0.5), its density is 0 and
  \<open>0.5 > 0\<close> holds at every attempt, so the loop of the first site never ends and
  \<open>startSimulation\<close> never returns.
\<close>

lemma sample_site_zero_field: "sample_site (\<lambda>i. 1 / 2) 1 1 [0] 0 = None"
proof (cases "sample_site (\<lambda>i. 1 / 2) 1 1 [0] 0")
  case None then show ?thesis .
next
  case (Some r)
  from sample_site_returns_accept [OF Some]
  obtain j where "accepted (\<lambda>i. 1 / 2) 1 1 [0] (0 + 3 * j)" by blast
  then show ?thesis by (simp add: accepted_eval js_gt_def density_read_def)
qed

theorem sampler_zero_field_counterexample:
  "sample_site (\<lambda>i. 1 / 2) 1 1 [0] 0 = None
   \<and> startSimulation nearest_site (\<lambda>i. 1 / 2) 1
         (initial_state\<lparr>width := 1, height := 1, density := [0]\<rparr>) = None"
proof -
  have "sample_points (\<lambda>i. 1 / 2) 1 1 [0] (Suc 0) [] 0 = None"
    using sample_site_zero_field by simp
  then show ?thesis
    using sample_site_zero_field by (simp add: startSimulation_def initial_state_def)
qed

section \<open>The accumulator sweep\<close>

lemma set_pixels: "set (pixels W H) = {(x, y). x < W \<and> y < H}"
  by (auto simp: pixels_def)

lemma pixels_Suc: "pixels W (Suc H) = pixels W H @ map (\<lambda>x. (x, H)) [0..<W]"
  by (simp add: pixels_def)

lemma take_row:
  assumes "i + j \<le> length xs"
  shows "take j (drop i xs) = map (\<lambda>x. xs ! (i + x)) [0..<j]"
  using assms by (intro nth_equalityI) simp_all

lemma map_pixels_take:
  assumes "H * W \<le> length dens"
  shows "map (\<lambda>(x, y). dens ! (y * W + x)) (pixels W H) = take (H * W) dens"
  using assms
proof (induction H)
  case 0
  then show ?case by (simp add: pixels_def)
next
  case (Suc H)
  have le: "H * W + W \<le> length dens" using Suc.prems by (simp add: add.commute)
  then have IH: "map (\<lambda>(x, y). dens ! (y * W + x)) (pixels W H) = take (H * W) dens"
    using Suc.IH by simp
  have "take (Suc H * W) dens = take (H * W + W) dens" by (simp add: add.commute)
  also have "\<dots> = take (H * W) dens @ take W (drop (H * W) dens)" by (rule take_add)
  also have "take W (drop (H * W) dens) = map (\<lambda>x. dens ! (H * W + x)) [0..<W]"
    using le by (rule take_row)
  finally show ?case by (simp add: pixels_Suc IH comp_def)
qed

lemma map_pixels:
  assumes "length dens = W * H"
  shows "map (\<lambda>(x, y). dens ! (y * W + x)) (pixels W H) = dens"
proof -
  have "H * W \<le> length dens" using assms by (simp add: mult.commute)
  then have "map (\<lambda>(x, y). dens ! (y * W + x)) (pixels W H) = take (H * W) dens"
    by (rule map_pixels_take)
  then show ?thesis using assms by (simp add: mult.commute)
qed

lemma density_read_pixel:
  assumes "y * W + x < length dens"
  shows "density_read dens (pixel_idx W x y) = Some (dens ! (y * W + x))"
  using assms unfolding density_read_def pixel_idx_def
  by (simp only: of_nat_less_iff of_nat_0_le_iff nat_int if_True simp_thms)

lemma pixels_in_range:
  assumes "length dens = W * H"
  shows "\<forall>(x, y)\<in>set (pixels W H). y * W + x < length dens"
  using assms by (auto simp: set_pixels intro: pixel_idx_bound)

lemma weights_add_mass [simp]:
  "weights (add_mass a i x y w) = (weights a)[i := weights a ! i + w]"
  by (simp add: add_mass_def Let_def)

lemma nextIndex_add_mass [simp]: "nextIndex (add_mass a i x y w) = i"
  by (simp add: add_mass_def Let_def)

lemma newPoints_add_mass:
  "newPoints (add_mass a i x y w) =
     ((newPoints a)[i * 2 := newPoints a ! (i * 2) + real x * w])
        [i * 2 + 1 := newPoints a ! (i * 2 + 1) + real y * w]"
  by (simp add: add_mass_def Let_def)

lemma length_newPoints_add_mass [simp]:
  "length (newPoints (add_mass a i x y w)) = length (newPoints a)"
  by (simp add: add_mass_def Let_def)

lemma sum_list_update_add:
  fixes xs :: "real list"
  assumes "k < length xs"
  shows "sum_list (xs[k := xs ! k + v]) = sum_list xs + v"
  using assms
proof (induction xs arbitrary: k)
  case Nil
  then show ?case by simp
next
  case (Cons z zs)
  then show ?case by (cases k) simp_all
qed

lemma sweep_mass:
  assumes "\<forall>(x, y)\<in>set ps. y * W + x < length dens"
    and "\<forall>x y h. fnd x y h < length (weights a)"
  shows "\<exists>a'. sweep fnd dens W ps a = Some a' \<and> length (weights a') = length (weights a)
          \<and> sum_list (weights a') =
              sum_list (weights a) + sum_list (filter (\<lambda>w. 0 < w) (map (\<lambda>(x, y). dens ! (y * W + x)) ps))"
  using assms
proof (induction ps arbitrary: a)
  case Nil
  then show ?case by simp
next
  case (Cons p ps)
  obtain x y where p: "p = (x, y)" by (cases p)
  have rd: "density_read dens (pixel_idx W x y) = Some (dens ! (y * W + x))"
    using Cons.prems(1) p by (intro density_read_pixel) simp
  have rest: "\<forall>(x, y)\<in>set ps. y * W + x < length dens" using Cons.prems(1) by simp
  let ?w = "dens ! (y * W + x)"
  show ?case
  proof (cases "?w \<le> 0")
    case True
    from Cons.IH [OF rest Cons.prems(2)] show ?thesis using True rd p by simp
  next
    case False
    let ?i = "fnd (real x) (real y) (nextIndex a)"
    let ?a1 = "add_mass a ?i x y ?w"
    have i: "?i < length (weights a)" using Cons.prems(2) by blast
    have len: "length (weights ?a1) = length (weights a)" by simp
    have f1: "\<forall>x y h. fnd x y h < length (weights ?a1)" using Cons.prems(2) by simp
    have s1: "sum_list (weights ?a1) = sum_list (weights a) + ?w"
      using i by (simp add: sum_list_update_add)
    from Cons.IH [OF rest f1] obtain a' where a': "sweep fnd dens W ps ?a1 = Some a'"
      "length (weights a') = length (weights ?a1)"
      "sum_list (weights a') = sum_list (weights ?a1)
         + sum_list (filter (\<lambda>w. 0 < w) (map (\<lambda>(x, y). dens ! (y * W + x)) ps))" by blast
    have "sweep fnd dens W (p # ps) a = Some a'" using False rd p a'(1) by simp
    moreover have "length (weights a') = length (weights a)" using a'(2) len by simp
    moreover have "sum_list (weights a') = sum_list (weights a)
         + sum_list (filter (\<lambda>w. 0 < w) (map (\<lambda>(x, y). dens ! (y * W + x)) (p # ps)))"
      using a'(3) s1 False p by simp
    ultimately show ?thesis by blast
  qed
qed


subsection \<open>The nearest-site query of the specification\<close>

lemma nearest_scan_range:
  "nearest_scan x y ps i best bd = best
   \<or> (i \<le> nearest_scan x y ps i best bd \<and> nearest_scan x y ps i best bd < i + length ps)"
proof (induction ps arbitrary: i best bd)
  case Nil
  then show ?case by simp
next
  case (Cons p ps)
  show ?case
  proof (cases "dist2 p x y < bd")
    case True
    from Cons.IH [of "Suc i" i "dist2 p x y"] show ?thesis using True by auto
  next
    case False
    from Cons.IH [of "Suc i" best bd] show ?thesis using False by auto
  qed
qed

lemma nearest_site_less:
  assumes "pts \<noteq> []"
  shows "nearest_site pts x y h < length pts"
proof -
  obtain p ps where pts: "pts = p # ps" using assms by (cases pts) simp_all
  from nearest_scan_range [of x y ps 1 0 "dist2 p x y"]
  show ?thesis unfolding pts nearest_site_def by auto
qed

lemma nearest_site_hint: "nearest_site pts x y h = nearest_site pts x y h'"
  by (simp add: nearest_site_def)

text \<open>
  C3. Mass conservation of the accumulator sweep of one iteration, over exact
  arithmetic: on a field of \<open>width * height\<close> weights, when the nearest-site query
  answers with the index of a site, the sweep ends and the sum over all sites of the
  accumulated weight-sums equals the sum of the weights of the locations that are not
  skipped, which are those of strictly positive weight.
\<close>

theorem mass_conservation:
  assumes "length (density s) = width s * height s"
    and "\<forall>x y h. fnd (points s) x y h < nat (nPoints s)"
  shows "\<exists>a. accumulate fnd s = Some a
           \<and> sum_list (weights a) = sum_list (filter (\<lambda>w. 0 < w) (density s))"
proof -
  let ?a0 = "fresh_acc (nat (nPoints s))"
  have r: "\<forall>(x, y)\<in>set (pixels (width s) (height s)). y * width s + x < length (density s)"
    using assms(1) by (rule pixels_in_range)
  have f: "\<forall>x y h. fnd (points s) x y h < length (weights ?a0)"
    using assms(2) by (simp add: fresh_acc_def)
  from sweep_mass [OF r f] obtain a where
    a: "sweep (fnd (points s)) (density s) (width s) (pixels (width s) (height s)) ?a0 = Some a"
    and m: "sum_list (weights a) = sum_list (weights ?a0)
        + sum_list (filter (\<lambda>w. 0 < w)
            (map (\<lambda>(x, y). density s ! (y * width s + x)) (pixels (width s) (height s))))"
    by blast
  have "sum_list (weights ?a0) = 0" by (simp add: fresh_acc_def sum_list_replicate)
  then have "sum_list (weights a) = sum_list (filter (\<lambda>w. 0 < w) (density s))"
    using m map_pixels [OF assms(1)] by simp
  then show ?thesis using a by (simp add: accumulate_def)
qed

theorem mass_conservation_witness:
  "\<exists>a. accumulate nearest_site
          (initial_state\<lparr>width := 2, height := 2, density := [1 / 4, 0, 1 / 2, 1],
             points := [(1 / 2, 1 / 2), (3 / 2, 3 / 2)], nPoints := 2\<rparr>) = Some a
       \<and> sum_list (weights a) = 7 / 4"
proof -
  let ?s = "initial_state\<lparr>width := 2, height := 2, density := [1 / 4, 0, 1 / 2, 1],
             points := [(1 / 2, 1 / 2), (3 / 2, 3 / 2)], nPoints := 2\<rparr>"
  have l: "length (density ?s) = width ?s * height ?s" by simp
  have n: "nat (nPoints ?s) = length (points ?s)" by simp
  have f: "\<forall>x y h. nearest_site (points ?s) x y h < nat (nPoints ?s)"
    unfolding n by (intro allI nearest_site_less) simp
  from mass_conservation [of ?s nearest_site, OF l f] show ?thesis by simp
qed

lemma add_mass_zero:
  "newPoints (add_mass a i x y 0) = newPoints a \<and> weights (add_mass a i x y 0) = weights a"
  by (simp add: add_mass_def Let_def)

lemma add_mass_cong:
  assumes "newPoints a = newPoints b" "weights a = weights b"
  shows "newPoints (add_mass a i x y w) = newPoints (add_mass b i x y w)
         \<and> weights (add_mass a i x y w) = weights (add_mass b i x y w)"
  using assms by (simp add: add_mass_def Let_def)

lemma sweep_skip_eq:
  assumes "\<forall>w\<in>set dens. 0 \<le> w"
    and "\<forall>(x, y)\<in>set ps. \<forall>w. density_read dens (pixel_idx W x y) = Some w \<longrightarrow> 0 < w \<longrightarrow>
           (\<forall>h h'. fnd (real x) (real y) h = fnd (real x) (real y) h')"
    and "newPoints a = newPoints b" and "weights a = weights b"
  shows "map_option (\<lambda>a. (newPoints a, weights a)) (sweep fnd dens W ps a)
         = map_option (\<lambda>a. (newPoints a, weights a)) (sweep_all fnd dens W ps b)"
  using assms(2,3,4)
proof (induction ps arbitrary: a b)
  case Nil
  then show ?case by simp
next
  case (Cons p ps)
  obtain x y where p: "p = (x, y)" by (cases p)
  have rest: "\<forall>(x, y)\<in>set ps. \<forall>w. density_read dens (pixel_idx W x y) = Some w \<longrightarrow> 0 < w \<longrightarrow>
           (\<forall>h h'. fnd (real x) (real y) h = fnd (real x) (real y) h')"
    using Cons.prems(1) by simp
  show ?case
  proof (cases "density_read dens (pixel_idx W x y)")
    case None
    then show ?thesis using p by simp
  next
    case (Some w)
    then have "w \<in> set dens" by (auto simp: density_read_def split: if_splits)
    then have w0: "0 \<le> w" using assms(1) by blast
    let ?b1 = "add_mass b (fnd (real x) (real y) (nextIndex b)) x y w"
    show ?thesis
    proof (cases "w \<le> 0")
      case True
      then have "w = 0" using w0 by simp
      then have "newPoints a = newPoints ?b1" "weights a = weights ?b1"
        using Cons.prems(2,3) add_mass_zero by simp_all
      from Cons.IH [OF rest this] show ?thesis using True Some p by simp
    next
      case False
      let ?a1 = "add_mass a (fnd (real x) (real y) (nextIndex a)) x y w"
      have "\<forall>h h'. fnd (real x) (real y) h = fnd (real x) (real y) h'"
        using Cons.prems(1) Some False p by simp
      then have "fnd (real x) (real y) (nextIndex a) = fnd (real x) (real y) (nextIndex b)"
        by blast
      then have "newPoints ?a1 = newPoints ?b1" "weights ?a1 = weights ?b1"
        using add_mass_cong [OF Cons.prems(2,3)] by simp_all
      from Cons.IH [OF rest this] show ?thesis using False Some p by simp
    qed
  qed
qed

text \<open>
  C7 (amended). Skipping the locations of weight 0 does not change the sums when, at
  every location of positive weight, the answer of the nearest-site query does not
  depend on the hint (no tie between nearest sites there): then, for a field of
  non-negative weights, the sweep of the script, which skips these locations and does
  not advance the hint there, and the sweep that visits every location yield the same
  position-sums and the same weight-sums, from any buffers and over any list of pixels
  (both stop at the same read outside the array, if there is one). Where the answer
  depends on the hint, the skip can change the sums.
\<close>

theorem skip_is_pure_optimisation:
  assumes "\<forall>w\<in>set dens. 0 \<le> w"
    and "\<forall>(x, y)\<in>set ps. \<forall>w. density_read dens (pixel_idx W x y) = Some w \<longrightarrow> 0 < w \<longrightarrow>
           (\<forall>h h'. fnd (real x) (real y) h = fnd (real x) (real y) h')"
  shows "map_option (\<lambda>a. (newPoints a, weights a)) (sweep fnd dens W ps a)
         = map_option (\<lambda>a. (newPoints a, weights a)) (sweep_all fnd dens W ps a)"
  using assms by (intro sweep_skip_eq) simp_all

lemma pixels_3_1: "pixels 3 1 = [(0, 0), (1, 0), (2, 0)]"
  by (simp add: pixels_def upt_rec)

lemma pixels_3_2: "pixels 3 2 = [(0, 0), (1, 0), (2, 0), (0, 1), (1, 1), (2, 1)]"
  by (simp add: pixels_def upt_rec)

lemma fresh_acc_2:
  "fresh_acc 2 = \<lparr>nextIndex = 0, newPoints = [0, 0, 0, 0], weights = [0, 0]\<rparr>"
  by (simp add: fresh_acc_def numeral_eq_Suc)

lemma hinted_nearest_at_site: "hinted_nearest [(2, 0), (0, 0)] 2 0 h = 0"
proof -
  consider "h = 0" | "h = 1" | "2 \<le> h" by linarith
  then show ?thesis
    by cases (simp_all add: hinted_nearest_def nearest_site_def dist2_def Let_def)
qed

theorem skip_is_pure_optimisation_witness:
  "map_option (\<lambda>a. (newPoints a, weights a))
     (sweep_all (hinted_nearest [(2, 0), (0, 0)]) [0, 0, 1] 3 (pixels 3 1) (fresh_acc 2))
   = Some ([2, 0, 0, 0], [1, 0])"
proof -
  let ?f = "hinted_nearest [(2, 0), (0, 0)]"
  have n: "\<forall>w\<in>set [0, 0, 1 :: real]. 0 \<le> w" by simp
  have h: "\<forall>(x, y)\<in>set (pixels 3 1). \<forall>w.
             density_read [0, 0, 1] (pixel_idx 3 x y) = Some w \<longrightarrow> 0 < w \<longrightarrow>
             (\<forall>h h'. ?f (real x) (real y) h = ?f (real x) (real y) h')"
    unfolding pixels_3_1
    by (simp add: density_read_def pixel_idx_def hinted_nearest_at_site)
  have e: "map_option (\<lambda>a. (newPoints a, weights a))
          (sweep ?f [0, 0, 1] 3 (pixels 3 1) (fresh_acc 2))
        = Some ([2, 0, 0, 0], [1, 0])"
    unfolding pixels_3_1 fresh_acc_2
    by (simp add: density_read_def pixel_idx_def hinted_nearest_def nearest_site_def
        dist2_def add_mass_def Let_def)
  show ?thesis
    by (rule trans [OF skip_is_pure_optimisation [OF n h, symmetric] e])
qed

text \<open>
  C7 as the specification states it fails where a location is as near to the hinted
  site as to another one. On the 3 by 2 field [0, 0, 0, 0, 1, 0] with the sites (2, 0)
  and (0, 0), the only weight is at (1, 1), which is equally far from both. The script
  skips every other location, so the hint is still site 0 there and site 0 gets the
  mass; the sweep that visits every location arrives with the hint at site 1, which
  gets it.
\<close>

theorem skip_changes_sums_counterexample:
  "map_option (\<lambda>a. (newPoints a, weights a))
     (sweep (hinted_nearest [(2, 0), (0, 0)]) [0, 0, 0, 0, 1, 0] 3 (pixels 3 2) (fresh_acc 2))
   = Some ([1, 1, 0, 0], [1, 0])
   \<and> map_option (\<lambda>a. (newPoints a, weights a))
     (sweep_all (hinted_nearest [(2, 0), (0, 0)]) [0, 0, 0, 0, 1, 0] 3 (pixels 3 2) (fresh_acc 2))
   = Some ([0, 0, 1, 1], [0, 1])"
  unfolding pixels_3_2 fresh_acc_2
  by (simp add: density_read_def pixel_idx_def hinted_nearest_def nearest_site_def
      dist2_def add_mass_def Let_def)

section \<open>The relaxation step\<close>

lemma sqdist_same [simp]: "sqdist p p = 0"
  by (simp add: sqdist_def)

lemma sqdist_nonneg [simp]: "0 \<le> sqdist p q"
  by (simp add: sqdist_def)

lemma relax_spec:
  assumes "distinct js" "\<forall>i\<in>set js. i < length pts" "0 \<le> m"
  shows "\<exists>pts' m'. relax a js pts m = (None, pts', m') \<and> length pts' = length pts
     \<and> (\<forall>i<length pts. pts' ! i = (if i \<in> set js then new_position a pts i else pts ! i))
     \<and> m \<le> m' \<and> (\<forall>i\<in>set js. sqdist (pts ! i) (pts' ! i) \<le> m')
     \<and> (m' = m \<or> (\<exists>i\<in>set js. m' = sqdist (pts ! i) (pts' ! i)))"
  using assms
proof (induction js arbitrary: pts m)
  case Nil
  then show ?case by simp
next
  case (Cons i js)
  have i: "i < length pts" "i \<notin> set js" and d: "distinct js"
    and r: "\<forall>j\<in>set js. j < length pts" using Cons.prems by simp_all
  show ?case
  proof (cases "0 < weights a ! i")
    case False
    from Cons.IH [OF d r Cons.prems(3)] obtain pts' m' where
      h: "relax a js pts m = (None, pts', m')" "length pts' = length pts"
         "\<forall>j<length pts. pts' ! j = (if j \<in> set js then new_position a pts j else pts ! j)"
         "m \<le> m'" "\<forall>j\<in>set js. sqdist (pts ! j) (pts' ! j) \<le> m'"
         "m' = m \<or> (\<exists>j\<in>set js. m' = sqdist (pts ! j) (pts' ! j))" by blast
    have e: "relax a (i # js) pts m = (None, pts', m')" using False h(1) by simp
    have pi: "pts' ! i = pts ! i" using h(3) i by simp
    have p: "\<forall>j<length pts. pts' ! j = (if j \<in> set (i # js) then new_position a pts j else pts ! j)"
      using h(3) False by (simp add: new_position_def)
    have b: "\<forall>j\<in>set (i # js). sqdist (pts ! j) (pts' ! j) \<le> m'"
      using h(5) pi h(4) Cons.prems(3) by simp
    have at: "m' = m \<or> (\<exists>j\<in>set (i # js). m' = sqdist (pts ! j) (pts' ! j))"
      using h(6) by auto
    show ?thesis using e h(2) p h(4) b at by blast
  next
    case True
    define nx where "nx = newPoints a ! (i * 2) / weights a ! i"
    define ny where "ny = newPoints a ! (i * 2 + 1) / weights a ! i"
    define dist where "dist = sqdist (pts ! i) (nx, ny)"
    define pts1 where "pts1 = pts[i := (nx, ny)]"
    define m1 where "m1 = (if dist > m then dist else m)"
    have np: "new_position a pts i = (nx, ny)" using True by (simp add: new_position_def nx_def ny_def)
    have e1: "relax a (i # js) pts m = relax a js pts1 m1"
      using True i(1)
      by (simp add: Let_def nx_def ny_def dist_def pts1_def m1_def sqdist_def)
    have r1: "\<forall>j\<in>set js. j < length pts1" using r by (simp add: pts1_def)
    have m1: "0 \<le> m1" "m \<le> m1" "dist \<le> m1" "m1 = m \<or> m1 = dist"
      using Cons.prems(3) by (simp_all add: m1_def)
    from Cons.IH [OF d r1 m1(1)] obtain pts' m' where
      h: "relax a js pts1 m1 = (None, pts', m')" "length pts' = length pts1"
         "\<forall>j<length pts1. pts' ! j = (if j \<in> set js then new_position a pts1 j else pts1 ! j)"
         "m1 \<le> m'" "\<forall>j\<in>set js. sqdist (pts1 ! j) (pts' ! j) \<le> m'"
         "m' = m1 \<or> (\<exists>j\<in>set js. m' = sqdist (pts1 ! j) (pts' ! j))" by blast
    have same: "\<forall>j\<in>set js. pts1 ! j = pts ! j \<and> new_position a pts1 j = new_position a pts j"
    proof
      fix j assume "j \<in> set js"
      then have "i \<noteq> j" using i(2) by blast
      then show "pts1 ! j = pts ! j \<and> new_position a pts1 j = new_position a pts j"
        by (simp add: pts1_def new_position_def)
    qed
    have pi: "pts' ! i = (nx, ny)" using h(3) i by (simp add: pts1_def)
    have len: "length pts' = length pts" using h(2) by (simp add: pts1_def)
    have p: "\<forall>j<length pts. pts' ! j = (if j \<in> set (i # js) then new_position a pts j else pts ! j)"
    proof (intro allI impI)
      fix j assume j: "j < length pts"
      show "pts' ! j = (if j \<in> set (i # js) then new_position a pts j else pts ! j)"
      proof (cases "j = i")
        case True
        then show ?thesis using pi np by simp
      next
        case False
        have "pts' ! j = (if j \<in> set js then new_position a pts1 j else pts1 ! j)"
          using h(3) j by (simp add: pts1_def)
        then show ?thesis using False same by (auto simp: pts1_def)
      qed
    qed
    have b: "\<forall>j\<in>set (i # js). sqdist (pts ! j) (pts' ! j) \<le> m'"
    proof
      fix j assume "j \<in> set (i # js)"
      then consider "j = i" | "j \<in> set js" by auto
      then show "sqdist (pts ! j) (pts' ! j) \<le> m'"
      proof cases
        case 1
        then show ?thesis using pi m1(3) h(4) by (simp add: dist_def)
      next
        case 2
        then show ?thesis using h(5) same by simp
      qed
    qed
    have at: "m' = m \<or> (\<exists>j\<in>set (i # js). m' = sqdist (pts ! j) (pts' ! j))"
    proof (cases "m' = m1")
      case True
      then show ?thesis using m1(4) pi by (auto simp: dist_def)
    next
      case False
      then obtain j where "j \<in> set js" "m' = sqdist (pts1 ! j) (pts' ! j)" using h(6) by blast
      then show ?thesis using same by auto
    qed
    have "m \<le> m'" using m1(2) h(4) by simp
    then show ?thesis using e1 h(1) len p b at by auto
  qed
qed


lemma fresh_acc_ok: "acc_ok n W H (fresh_acc n)"
  by (simp add: acc_ok_def fresh_acc_def)

lemma pair_update_even:
  assumes "length np = n * 2" "i < n" "j < n"
  shows "(np[i * 2 := A, i * 2 + 1 := B]) ! (j * 2) = (if j = i then A else np ! (j * 2))"
proof -
  have "i * 2 + 1 \<noteq> j * 2" by presburger
  moreover have "i * 2 < length np" "j * 2 < length np" using assms by simp_all
  ultimately show ?thesis by (simp add: nth_list_update)
qed

lemma pair_update_odd:
  assumes "length np = n * 2" "i < n" "j < n"
  shows "(np[i * 2 := A, i * 2 + 1 := B]) ! (j * 2 + 1) = (if j = i then B else np ! (j * 2 + 1))"
proof -
  have "i * 2 \<noteq> j * 2 + 1" by presburger
  moreover have "i * 2 + 1 < length np" "j * 2 + 1 < length np" using assms by simp_all
  ultimately show ?thesis by (simp add: nth_list_update)
qed

lemma mass_bound:
  fixes s c w v t :: real
  assumes "s \<le> c * v" "t \<le> c" "0 < w"
  shows "s + t * w \<le> c * (v + w)"
proof -
  have "t * w \<le> c * w" using assms(2,3) by (intro mult_right_mono) simp_all
  then show ?thesis using assms(1) by (simp add: distrib_left)
qed

lemma add_mass_ok:
  assumes ok: "acc_ok n W H a" and w: "0 < w" and x: "x < W" and y: "y < H"
  shows "acc_ok n W H (add_mass a i x y w)"
proof (cases "i < n")
  case False
  have "length (weights a) \<le> i" "length (newPoints a) \<le> i * 2"
    "length (newPoints a) \<le> i * 2 + 1"
    using False ok by (simp_all add: acc_ok_def)
  then have "(weights a)[i := weights a ! i + w] = weights a"
    "(newPoints a)[i * 2 := A, i * 2 + 1 := B] = newPoints a" for A B
    by (simp_all only: list_update_beyond)
  then show ?thesis using ok by (simp add: acc_ok_def newPoints_add_mass)
next
  case True
  have lw: "length (weights a) = n" and ln: "length (newPoints a) = n * 2"
    using ok by (simp_all add: acc_ok_def)
  have xr: "real x \<le> real W - 1" and yr: "real y \<le> real H - 1" using x y by auto
  show ?thesis unfolding acc_ok_def
  proof (intro conjI allI impI)
    show "length (weights (add_mass a i x y w)) = n" using lw by simp
    show "length (newPoints (add_mass a i x y w)) = n * 2" using ln by (simp add: newPoints_add_mass)
  next
    fix j assume j: "j < n"
    have oj: "0 \<le> weights a ! j" "0 \<le> newPoints a ! (j * 2)"
      "newPoints a ! (j * 2) \<le> (real W - 1) * weights a ! j"
      "0 \<le> newPoints a ! (j * 2 + 1)"
      "newPoints a ! (j * 2 + 1) \<le> (real H - 1) * weights a ! j"
      using ok j by (simp_all add: acc_ok_def)
    have wj: "weights (add_mass a i x y w) ! j = (if j = i then weights a ! i + w else weights a ! j)"
      using j lw by (simp add: nth_list_update)
    have ej: "newPoints (add_mass a i x y w) ! (j * 2)
                = (if j = i then newPoints a ! (i * 2) + real x * w else newPoints a ! (j * 2))"
      unfolding newPoints_add_mass using ln True j by (rule pair_update_even)
    have dj: "newPoints (add_mass a i x y w) ! (j * 2 + 1)
                = (if j = i then newPoints a ! (i * 2 + 1) + real y * w else newPoints a ! (j * 2 + 1))"
      unfolding newPoints_add_mass using ln True j by (rule pair_update_odd)
    show "0 \<le> weights (add_mass a i x y w) ! j" unfolding wj using oj(1) w by auto
    show "0 \<le> newPoints (add_mass a i x y w) ! (j * 2)" unfolding ej using oj(2) w by auto
    show "0 \<le> newPoints (add_mass a i x y w) ! (j * 2 + 1)" unfolding dj using oj(4) w by auto
    show "newPoints (add_mass a i x y w) ! (j * 2) \<le> (real W - 1) * weights (add_mass a i x y w) ! j"
      unfolding ej wj using oj(3) mass_bound [OF _ xr w] by auto
    show "newPoints (add_mass a i x y w) ! (j * 2 + 1) \<le> (real H - 1) * weights (add_mass a i x y w) ! j"
      unfolding dj wj using oj(5) mass_bound [OF _ yr w] by auto
  qed
qed

lemma sweep_ok:
  assumes "\<forall>(x, y)\<in>set ps. x < W \<and> y < H" and "length dens = W * H" and "acc_ok n W H a"
  shows "\<exists>a'. sweep fnd dens W ps a = Some a' \<and> acc_ok n W H a'"
  using assms(1,3)
proof (induction ps arbitrary: a)
  case Nil
  then show ?case by simp
next
  case (Cons p ps)
  obtain x y where p: "p = (x, y)" by (cases p)
  have xy: "x < W" "y < H" and rest: "\<forall>(x, y)\<in>set ps. x < W \<and> y < H"
    using Cons.prems(1) p by simp_all
  have "y * W + x < length dens" using xy assms(2) by (simp add: pixel_idx_bound)
  then have rd: "density_read dens (pixel_idx W x y) = Some (dens ! (y * W + x))"
    by (rule density_read_pixel)
  let ?w = "dens ! (y * W + x)"
  show ?case
  proof (cases "?w \<le> 0")
    case True
    from Cons.IH [OF rest Cons.prems(2)] show ?thesis using True rd p by simp
  next
    case False
    then have "0 < ?w" by simp
    then have "acc_ok n W H (add_mass a (fnd (real x) (real y) (nextIndex a)) x y ?w)"
      using Cons.prems(2) xy by (intro add_mass_ok)
    from Cons.IH [OF rest this] show ?thesis using False rd p by simp
  qed
qed

lemma accumulate_ok:
  assumes "length (density s) = width s * height s"
  shows "\<exists>a. accumulate fnd s = Some a \<and> acc_ok (nat (nPoints s)) (width s) (height s) a"
  unfolding accumulate_def
  using assms by (intro sweep_ok fresh_acc_ok) (auto simp: set_pixels)


lemma animate_returns:
  assumes "isRunning s" and "length (density s) = width s * height s"
    and "int (length (points s)) = nPoints s"
  shows "\<exists>a pts' m'. accumulate fnd s = Some a
      \<and> acc_ok (length (points s)) (width s) (height s) a
      \<and> animate fnd s = Returned (s\<lparr>points := pts', maxDistMoved := m',
            status := Some (toFixed2 (sqrt m')),
            animationId := Some (nextFrame s), pending := insert (nextFrame s) (pending s),
            nextFrame := Suc (nextFrame s)\<rparr>)
      \<and> length pts' = length (points s)
      \<and> (\<forall>i<length (points s). pts' ! i = new_position a (points s) i)
      \<and> 0 \<le> m' \<and> (\<forall>i<length (points s). sqdist (points s ! i) (pts' ! i) \<le> m')
      \<and> (m' = 0 \<or> (\<exists>i<length (points s). m' = sqdist (points s ! i) (pts' ! i)))"
proof -
  let ?N = "length (points s)"
  have n: "nat (nPoints s) = ?N" "\<not> nPoints s < 0" using assms(3) by simp_all
  from accumulate_ok [OF assms(2), of fnd] obtain a where
    a: "accumulate fnd s = Some a" "acc_ok ?N (width s) (height s) a" using n(1) by auto
  have "distinct [0..<?N]" "\<forall>i\<in>set [0..<?N]. i < length (points s)" "(0::real) \<le> 0"
    by simp_all
  from relax_spec [OF this, of a] obtain pts' m' where
    r: "relax a [0..<?N] (points s) 0 = (None, pts', m')" "length pts' = ?N"
      "\<forall>i<?N. pts' ! i = (if i \<in> set [0..<?N] then new_position a (points s) i else points s ! i)"
      "0 \<le> m'" "\<forall>i\<in>set [0..<?N]. sqdist (points s ! i) (pts' ! i) \<le> m'"
      "m' = 0 \<or> (\<exists>i\<in>set [0..<?N]. m' = sqdist (points s ! i) (pts' ! i))" by blast
  have an: "animate fnd s = Returned (s\<lparr>points := pts', maxDistMoved := m',
            status := Some (toFixed2 (sqrt m')),
            animationId := Some (nextFrame s), pending := insert (nextFrame s) (pending s),
            nextFrame := Suc (nextFrame s)\<rparr>)"
    using assms(1) n a(1) r(1,2) by (simp add: animate_def)
  have p: "\<forall>i<?N. pts' ! i = new_position a (points s) i" using r(3) by simp
  have b: "\<forall>i<?N. sqdist (points s ! i) (pts' ! i) \<le> m'" using r(5) by simp
  have at: "m' = 0 \<or> (\<exists>i<?N. m' = sqdist (points s ! i) (pts' ! i))" using r(6) by auto
  show ?thesis using a an r(2) p r(4) b at by blast
qed

lemma accumulate_example:
  "accumulate nearest_site
     (initial_state\<lparr>width := 2, height := 1, density := [1, 0],
        points := [(1 / 2, 1 / 2), (3 / 2, 1 / 2)], nPoints := 2, isRunning := True\<rparr>)
   = Some \<lparr>nextIndex = 0, newPoints = [0, 0, 0, 0], weights = [1, 0]\<rparr>"
  by (simp add: accumulate_def pixels_def upt_rec fresh_acc_def eval_nat_numeral
      density_read_def pixel_idx_def nearest_site_def dist2_def add_mass_def Let_def)

lemma animate_example:
  "animate nearest_site
     (initial_state\<lparr>width := 2, height := 1, density := [1, 0],
        points := [(1 / 2, 1 / 2), (3 / 2, 1 / 2)], nPoints := 2, isRunning := True\<rparr>)
   = Returned
     (initial_state\<lparr>width := 2, height := 1, density := [1, 0],
        points := [(0, 0), (3 / 2, 1 / 2)], nPoints := 2, isRunning := True,
        maxDistMoved := 1 / 2, status := Some (71 / 100), animationId := Some 0,
        pending := {0}, nextFrame := 1\<rparr>)"
  unfolding animate_def accumulate_example
  by (simp add: upt_rec eval_nat_numeral Let_def initial_state_def)


text \<open>
  C4 (amended). One iteration on a running state whose density array has
  \<open>width * height\<close> entries and whose \<open>points\<close> are \<open>nPoints\<close> many: the sweep ends with
  sums \<open>a\<close>, \<open>animate\<close> returns, every site whose weight-sum is positive is at
  (position-sum / weight-sum), and every site whose weight-sum is 0 is where it was. The
  metric the iteration computes, \<open>maxDistMoved\<close>, is the maximum over all sites of the
  squared distance between the old and the new position. What the iteration emits, on
  the status line, is not that value but its square root written with two decimals.
\<close>

theorem iteration_update:
  assumes "isRunning s" and "length (density s) = width s * height s"
    and "int (length (points s)) = nPoints s"
  shows "\<exists>a s'. accumulate fnd s = Some a \<and> animate fnd s = Returned s'
     \<and> length (points s') = length (points s)
     \<and> (\<forall>i<length (points s).
           (0 < weights a ! i \<longrightarrow>
              points s' ! i = (newPoints a ! (i * 2) / weights a ! i,
                               newPoints a ! (i * 2 + 1) / weights a ! i))
         \<and> (weights a ! i = 0 \<longrightarrow> points s' ! i = points s ! i))
     \<and> (points s \<noteq> [] \<longrightarrow>
          maxDistMoved s' =
            Max ((\<lambda>i. sqdist (points s ! i) (points s' ! i)) ` {..<length (points s)}))
     \<and> status s' = Some (toFixed2 (sqrt (maxDistMoved s')))"
proof -
  let ?N = "length (points s)"
  from animate_returns [OF assms, of fnd] obtain a pts' m' where
    a: "accumulate fnd s = Some a"
    and an: "animate fnd s = Returned (s\<lparr>points := pts', maxDistMoved := m',
            status := Some (toFixed2 (sqrt m')),
            animationId := Some (nextFrame s), pending := insert (nextFrame s) (pending s),
            nextFrame := Suc (nextFrame s)\<rparr>)"
    and len: "length pts' = ?N"
    and p: "\<forall>i<?N. pts' ! i = new_position a (points s) i"
    and m0: "0 \<le> m'"
    and b: "\<forall>i<?N. sqdist (points s ! i) (pts' ! i) \<le> m'"
    and at: "m' = 0 \<or> (\<exists>i<?N. m' = sqdist (points s ! i) (pts' ! i))" by blast
  let ?s' = "s\<lparr>points := pts', maxDistMoved := m',
            status := Some (toFixed2 (sqrt m')),
            animationId := Some (nextFrame s), pending := insert (nextFrame s) (pending s),
            nextFrame := Suc (nextFrame s)\<rparr>"
  let ?D = "(\<lambda>i. sqdist (points s ! i) (pts' ! i)) ` {..<?N}"
  have upd: "\<forall>i<?N.
           (0 < weights a ! i \<longrightarrow>
              pts' ! i = (newPoints a ! (i * 2) / weights a ! i,
                          newPoints a ! (i * 2 + 1) / weights a ! i))
         \<and> (weights a ! i = 0 \<longrightarrow> pts' ! i = points s ! i)"
    using p by (simp add: new_position_def)
  have mx: "m' = Max ?D" if ne: "points s \<noteq> []"
  proof -
    have fin: "finite ?D" by simp
    have ub: "\<And>d. d \<in> ?D \<Longrightarrow> d \<le> m'" using b by auto
    have mem: "m' \<in> ?D"
    proof (cases "\<exists>i<?N. m' = sqdist (points s ! i) (pts' ! i)")
      case True
      then show ?thesis by auto
    next
      case False
      then have z: "m' = 0" using at by blast
      have N: "0 < ?N" using ne by simp
      then have "sqdist (points s ! 0) (pts' ! 0) \<le> 0" using b z by blast
      then have "sqdist (points s ! 0) (pts' ! 0) = 0" using sqdist_nonneg [of "points s ! 0" "pts' ! 0"] by simp
      then show ?thesis using z N by force
    qed
    show ?thesis using Max_eqI [OF fin ub mem] by simp
  qed
  have "accumulate fnd s = Some a \<and> animate fnd s = Returned ?s'
     \<and> length (points ?s') = length (points s)
     \<and> (\<forall>i<length (points s).
           (0 < weights a ! i \<longrightarrow>
              points ?s' ! i = (newPoints a ! (i * 2) / weights a ! i,
                               newPoints a ! (i * 2 + 1) / weights a ! i))
         \<and> (weights a ! i = 0 \<longrightarrow> points ?s' ! i = points s ! i))
     \<and> (points s \<noteq> [] \<longrightarrow>
          maxDistMoved ?s' =
            Max ((\<lambda>i. sqdist (points s ! i) (points ?s' ! i)) ` {..<length (points s)}))
     \<and> status ?s' = Some (toFixed2 (sqrt (maxDistMoved ?s')))"
    using a an len upd mx by simp
  then show ?thesis by blast
qed

theorem iteration_update_witness:
  "\<exists>s'. animate nearest_site
     (initial_state\<lparr>width := 2, height := 1, density := [1, 0],
        points := [(1 / 2, 1 / 2), (3 / 2, 1 / 2)], nPoints := 2, isRunning := True\<rparr>) = Returned s'
   \<and> points s' = [(0, 0), (3 / 2, 1 / 2)] \<and> maxDistMoved s' = 1 / 2
   \<and> status s' = Some (71 / 100)
   \<and> maxDistMoved s' =
       Max ((\<lambda>i. sqdist (points
     (initial_state\<lparr>width := 2, height := 1, density := [1, 0],
        points := [(1 / 2, 1 / 2), (3 / 2, 1 / 2)], nPoints := 2, isRunning := True\<rparr>) ! i) (points s' ! i)) ` {..<length (points
     (initial_state\<lparr>width := 2, height := 1, density := [1, 0],
        points := [(1 / 2, 1 / 2), (3 / 2, 1 / 2)], nPoints := 2, isRunning := True\<rparr>))})"
proof -
  let ?s = "(initial_state\<lparr>width := 2, height := 1, density := [1, 0],
        points := [(1 / 2, 1 / 2), (3 / 2, 1 / 2)], nPoints := 2, isRunning := True\<rparr>)"
  have h: "isRunning ?s" "length (density ?s) = width ?s * height ?s"
    "int (length (points ?s)) = nPoints ?s" by simp_all
  from iteration_update [of ?s nearest_site, OF h] obtain a s' where
    r: "animate nearest_site ?s = Returned s'"
    and m: "points ?s \<noteq> [] \<longrightarrow> maxDistMoved s' =
            Max ((\<lambda>i. sqdist (points ?s ! i) (points s' ! i)) ` {..<length (points ?s)})"
    and st: "status s' = Some (toFixed2 (sqrt (maxDistMoved s')))"
    by blast
  have s': "s' = (initial_state\<lparr>width := 2, height := 1, density := [1, 0],
        points := [(0, 0), (3 / 2, 1 / 2)], nPoints := 2, isRunning := True,
        maxDistMoved := 1 / 2, status := Some (71 / 100), animationId := Some 0,
        pending := {0}, nextFrame := 1\<rparr>)"
    using r by (simp only: animate_example outcome.inject)
  have ne: "points ?s \<noteq> []" by simp
  have m': "maxDistMoved s' =
            Max ((\<lambda>i. sqdist (points ?s ! i) (points s' ! i)) ` {..<length (points ?s)})"
    using m ne by blast
  have ps: "points s' = [(0, 0), (3 / 2, 1 / 2)]" "maxDistMoved s' = 1 / 2"
    "status s' = Some (71 / 100)"
    using st unfolding s' by simp_all
  show ?thesis using r ps m' by blast
qed

text \<open>
  C4 as the specification states it fails on the metric: on the 2 by 1 field [1, 0] with
  sites (0.5, 0.5) and (1.5, 0.5), the first site moves to (0, 0), a squared distance of
  0.5, the second stays, and the status line shows 0.71, not 0.5.
\<close>

theorem emitted_metric_counterexample:
  "animate nearest_site
     (initial_state\<lparr>width := 2, height := 1, density := [1, 0],
        points := [(1 / 2, 1 / 2), (3 / 2, 1 / 2)], nPoints := 2, isRunning := True\<rparr>)
   = Returned
     (initial_state\<lparr>width := 2, height := 1, density := [1, 0],
        points := [(0, 0), (3 / 2, 1 / 2)], nPoints := 2, isRunning := True,
        maxDistMoved := 1 / 2, status := Some (71 / 100), animationId := Some 0,
        pending := {0}, nextFrame := 1\<rparr>)
   \<and> sqdist (1 / 2, 1 / 2) (0, 0) = 1 / 2 \<and> sqdist (3 / 2, 1 / 2) (3 / 2, 1 / 2) = 0
   \<and> Some (71 / 100) \<noteq> Some (max (1 / 2) 0 :: real)"
  using animate_example by (simp add: sqdist_def)

text \<open>
  C5. Stranded sites: in every iteration no weight-sum is negative, and a site whose
  weight-sum is 0 has both coordinates unchanged after the step; \<open>animate\<close> returns
  normally, so this is no error.
\<close>

theorem stranded_site_keeps_position:
  assumes "isRunning s" and "length (density s) = width s * height s"
    and "int (length (points s)) = nPoints s"
  shows "\<exists>a s'. accumulate fnd s = Some a \<and> animate fnd s = Returned s'
     \<and> (\<forall>i<length (points s). 0 \<le> weights a ! i
          \<and> (weights a ! i = 0 \<longrightarrow>
                fst (points s' ! i) = fst (points s ! i) \<and> snd (points s' ! i) = snd (points s ! i)))"
proof -
  let ?N = "length (points s)"
  from animate_returns [OF assms, of fnd] obtain a pts' m' where
    a: "accumulate fnd s = Some a" and ok: "acc_ok ?N (width s) (height s) a"
    and an: "animate fnd s = Returned (s\<lparr>points := pts', maxDistMoved := m',
            status := Some (toFixed2 (sqrt m')),
            animationId := Some (nextFrame s), pending := insert (nextFrame s) (pending s),
            nextFrame := Suc (nextFrame s)\<rparr>)"
    and p: "\<forall>i<?N. pts' ! i = new_position a (points s) i" by blast
  let ?s' = "s\<lparr>points := pts', maxDistMoved := m',
            status := Some (toFixed2 (sqrt m')),
            animationId := Some (nextFrame s), pending := insert (nextFrame s) (pending s),
            nextFrame := Suc (nextFrame s)\<rparr>"
  have "\<forall>i<?N. 0 \<le> weights a ! i
          \<and> (weights a ! i = 0 \<longrightarrow>
                fst (points ?s' ! i) = fst (points s ! i) \<and> snd (points ?s' ! i) = snd (points s ! i))"
    using ok p by (simp add: acc_ok_def new_position_def)
  then show ?thesis using a an by blast
qed

theorem stranded_site_keeps_position_witness:
  "\<exists>s'. animate nearest_site
     (initial_state\<lparr>width := 2, height := 1, density := [1, 0],
        points := [(1 / 2, 1 / 2), (3 / 2, 1 / 2)], nPoints := 2, isRunning := True\<rparr>) = Returned s'
     \<and> points s' ! 1 = (3 / 2, 1 / 2)"
proof -
  let ?s = "(initial_state\<lparr>width := 2, height := 1, density := [1, 0],
        points := [(1 / 2, 1 / 2), (3 / 2, 1 / 2)], nPoints := 2, isRunning := True\<rparr>)"
  have h: "isRunning ?s" "length (density ?s) = width ?s * height ?s"
    "int (length (points ?s)) = nPoints ?s" by simp_all
  from stranded_site_keeps_position [of ?s nearest_site, OF h] obtain a s' where
    a: "accumulate nearest_site ?s = Some a"
    and r: "animate nearest_site ?s = Returned s'"
    and k: "\<forall>i<length (points ?s). 0 \<le> weights a ! i
          \<and> (weights a ! i = 0 \<longrightarrow>
                fst (points s' ! i) = fst (points ?s ! i) \<and> snd (points s' ! i) = snd (points ?s ! i))"
    by blast
  have "a = \<lparr>nextIndex = 0, newPoints = [0, 0, 0, 0], weights = [1, 0]\<rparr>"
    using a by (simp only: accumulate_example option.inject)
  then have "weights a ! 1 = 0" by simp
  moreover have "1 < length (points ?s)" by simp
  ultimately have "fst (points s' ! 1) = fst (points ?s ! 1) \<and> snd (points s' ! 1) = snd (points ?s ! 1)"
    using k by blast
  then have "points s' ! 1 = (3 / 2, 1 / 2)" by (simp add: prod_eq_iff)
  then show ?thesis using r by blast
qed

section \<open>Positions stay inside the domain\<close>

lemma candidate_in_domain:
  assumes "unit_draws rnd" "0 < W" "0 < H"
  shows "in_domain W H (candidate rnd W H k)"
proof -
  have a: "0 \<le> rnd k" "rnd k < 1" "0 \<le> rnd (k + 1)" "rnd (k + 1) < 1"
    using assms(1) by (simp_all add: unit_draws_def)
  have "rnd k * real W < 1 * real W" using a(2) assms(2) by (intro mult_strict_right_mono) simp_all
  moreover have "rnd (k + 1) * real H < 1 * real H"
    using a(4) assms(3) by (intro mult_strict_right_mono) simp_all
  ultimately show ?thesis using a(1,3) by (simp add: in_domain_def candidate_def)
qed

lemma sample_site_in_domain:
  assumes "unit_draws rnd" "0 < W" "0 < H" "sample_site rnd W H dens k = Some (p, k')"
  shows "in_domain W H p"
proof -
  from sample_site_returns_accept [OF assms(4)] obtain j where
    "(p, k') = (candidate rnd W H (k + 3 * j), k + 3 * j + 3)" by blast
  then have "p = candidate rnd W H (k + 3 * j)" by simp
  then show ?thesis using candidate_in_domain [OF assms(1-3)] by simp
qed

lemma sample_points_spec:
  assumes "unit_draws rnd" "0 < W" "0 < H"
    and "sample_points rnd W H dens m pts k = Some (pts', k')"
    and "list_all (in_domain W H) pts"
  shows "length pts' = length pts + m \<and> list_all (in_domain W H) pts'"
  using assms(4,5)
proof (induction m arbitrary: pts k)
  case 0
  then show ?case by simp
next
  case (Suc m)
  from Suc.prems(1) obtain p k1 where
    s: "sample_site rnd W H dens k = Some (p, k1)"
    and r: "sample_points rnd W H dens m (pts @ [p]) k1 = Some (pts', k')"
    by (auto split: option.splits)
  have "in_domain W H p" using assms(1-3) s by (rule sample_site_in_domain)
  then have "list_all (in_domain W H) (pts @ [p])" using Suc.prems(2) by simp
  from Suc.IH [OF r this] show ?case by simp
qed

lemma new_position_in_domain:
  assumes "acc_ok n W H a" "i < n" "in_domain W H (pts ! i)"
  shows "in_domain W H (new_position a pts i)"
proof (cases "0 < weights a ! i")
  case False
  then show ?thesis using assms(3) by (simp add: new_position_def)
next
  case True
  let ?w = "weights a ! i"
  have b: "0 \<le> newPoints a ! (i * 2)" "newPoints a ! (i * 2) \<le> (real W - 1) * ?w"
    "0 \<le> newPoints a ! (i * 2 + 1)" "newPoints a ! (i * 2 + 1) \<le> (real H - 1) * ?w"
    using assms(1,2) by (simp_all add: acc_ok_def)
  have "newPoints a ! (i * 2) / ?w \<le> real W - 1" "newPoints a ! (i * 2 + 1) / ?w \<le> real H - 1"
    using b(2,4) True by (simp_all add: pos_divide_le_eq)
  then have "newPoints a ! (i * 2) / ?w < real W" "newPoints a ! (i * 2 + 1) / ?w < real H"
    by simp_all
  moreover have "0 \<le> newPoints a ! (i * 2) / ?w" "0 \<le> newPoints a ! (i * 2 + 1) / ?w"
    using b(1,3) True by simp_all
  ultimately show ?thesis using True by (simp add: new_position_def in_domain_def)
qed

lemma animate_in_domain:
  assumes "isRunning s" and "length (density s) = width s * height s"
    and "int (length (points s)) = nPoints s"
    and "list_all (in_domain (width s) (height s)) (points s)"
  shows "\<exists>s'. animate fnd s = Returned s' \<and> run_ok (width s) (height s) (density s) s'
           \<and> length (points s') = length (points s) \<and> nextFrame s' = Suc (nextFrame s)"
proof -
  let ?N = "length (points s)"
  from animate_returns [OF assms(1-3), of fnd] obtain a pts' m' where
    ok: "acc_ok ?N (width s) (height s) a"
    and an: "animate fnd s = Returned (s\<lparr>points := pts', maxDistMoved := m',
            status := Some (toFixed2 (sqrt m')),
            animationId := Some (nextFrame s), pending := insert (nextFrame s) (pending s),
            nextFrame := Suc (nextFrame s)\<rparr>)"
    and len: "length pts' = ?N"
    and p: "\<forall>i<?N. pts' ! i = new_position a (points s) i" by blast
  have "\<forall>i<length pts'. in_domain (width s) (height s) (pts' ! i)"
  proof (intro allI impI)
    fix i assume "i < length pts'"
    then have i: "i < ?N" using len by simp
    then have "in_domain (width s) (height s) (points s ! i)"
      using assms(4) by (simp add: list_all_length)
    then have "in_domain (width s) (height s) (new_position a (points s) i)"
      using ok i by (intro new_position_in_domain)
    then show "in_domain (width s) (height s) (pts' ! i)" using p i by simp
  qed
  then have d: "list_all (in_domain (width s) (height s)) pts'" by (simp add: list_all_length)
  show ?thesis using an assms(1-3) len d by (simp add: run_ok_def)
qed

lemma run_frames_in_domain:
  assumes "run_ok W H d s"
  shows "\<exists>s2. run_frames fnd j s = Returned s2 \<and> nextFrame s2 = nextFrame s + j
           \<and> length (points s2) = length (points s) \<and> list_all (in_domain W H) (points s2)"
  using assms
proof (induction j arbitrary: s)
  case 0
  then show ?case by (simp add: run_ok_def)
next
  case (Suc j)
  from Suc.prems obtain fid where fid: "animationId s = Some fid" "fid \<in> pending s"
    by (auto simp: run_ok_def)
  let ?s = "s\<lparr>pending := pending s - {fid}\<rparr>"
  have h: "isRunning ?s" "length (density ?s) = width ?s * height ?s"
    "int (length (points ?s)) = nPoints ?s"
    "list_all (in_domain (width ?s) (height ?s)) (points ?s)"
    using Suc.prems by (simp_all add: run_ok_def)
  from animate_in_domain [OF h, of fnd] obtain s' where
    s': "animate fnd ?s = Returned s'" "run_ok W H d s'"
      "length (points s') = length (points s)" "nextFrame s' = Suc (nextFrame s)"
    using Suc.prems by (auto simp: run_ok_def)
  from Suc.IH [OF s'(2)] obtain s2 where
    s2: "run_frames fnd j s' = Returned s2" "nextFrame s2 = nextFrame s' + j"
      "length (points s2) = length (points s')" "list_all (in_domain W H) (points s2)" by blast
  have "run_frames fnd (Suc j) s = Returned s2"
    using fid s'(1) s2(1) by (simp add: frame_def)
  then show ?case using s2 s'(3,4) by simp
qed


lemma startSimulation_sampled:
  assumes "0 < width s" "0 < height s"
    and "sample_points rnd (width s) (height s) (density s) (nat n) [] (draws s) = Some (pts, k)"
  shows "startSimulation fnd rnd n s =
           Some (animate fnd
             (s\<lparr>nPoints := n, status := None, points := pts, draws := k,
                pending := (if isRunning s then pending s - set_option (animationId s)
                            else pending s),
                isRunning := True\<rparr>))"
  using assms by (cases "isRunning s") (simp_all add: startSimulation_def Let_def)

text \<open>
  C6. For a field of \<open>width * height\<close> weights with positive width and height, draws of
  \<open>Math.random()\<close> in [0, 1) and N at least 1: when \<open>startSimulation\<close> returns, the sampler
  has produced exactly N positions, all inside [0, W) x [0, H); the call returned
  normally after its first iteration; and after any number \<open>j\<close> of further animation
  frames, each of which runs and returns, there are still exactly N positions, all inside
  the domain.
\<close>

theorem positions_in_domain:
  assumes "0 < width s" and "0 < height s" and "length (density s) = width s * height s"
    and "unit_draws rnd" and "1 \<le> n" and "startSimulation fnd rnd n s = Some out"
  shows "\<exists>pts k s1.
           sample_points rnd (width s) (height s) (density s) (nat n) [] (draws s) = Some (pts, k)
         \<and> length pts = nat n \<and> list_all (in_domain (width s) (height s)) pts
         \<and> out = Returned s1
         \<and> (\<forall>j. \<exists>s2. run_frames fnd j s1 = Returned s2 \<and> nextFrame s2 = nextFrame s1 + j
                \<and> length (points s2) = nat n
                \<and> list_all (in_domain (width s) (height s)) (points s2))"
proof -
  let ?W = "width s" and ?H = "height s"
  from assms(1,2,6) obtain pts k where
    sp: "sample_points rnd ?W ?H (density s) (nat n) [] (draws s) = Some (pts, k)"
    by (auto simp: startSimulation_def split: option.splits)
  have "length pts = length ([] :: (real \<times> real) list) + nat n \<and> list_all (in_domain ?W ?H) pts"
    using assms(4,1,2) sp by (rule sample_points_spec) simp
  then have pts: "length pts = nat n" "list_all (in_domain ?W ?H) pts" by simp_all
  define s3 where "s3 = s\<lparr>nPoints := n, status := None, points := pts, draws := k,
                pending := (if isRunning s then pending s - set_option (animationId s)
                            else pending s),
                isRunning := True\<rparr>"
  have "startSimulation fnd rnd n s = Some (animate fnd s3)"
    unfolding s3_def using assms(1,2) sp by (rule startSimulation_sampled)
  then have out: "out = animate fnd s3" using assms(6) by simp
  have f: "width s3 = ?W" "height s3 = ?H" "density s3 = density s" "points s3 = pts"
    "nPoints s3 = n" "isRunning s3"
    by (simp_all add: s3_def)
  have h: "isRunning s3" "length (density s3) = width s3 * height s3"
    "int (length (points s3)) = nPoints s3"
    "list_all (in_domain (width s3) (height s3)) (points s3)"
    using f pts assms(3,5) by simp_all
  from animate_in_domain [OF h, of fnd] obtain s' where
    s': "animate fnd s3 = Returned s'" "run_ok ?W ?H (density s) s'"
      "length (points s') = nat n"
    using f pts(1) by auto
  have "\<forall>j. \<exists>t. run_frames fnd j s' = Returned t \<and> nextFrame t = nextFrame s' + j
                \<and> length (points t) = nat n \<and> list_all (in_domain ?W ?H) (points t)"
    using run_frames_in_domain [OF s'(2), of fnd] s'(3) by simp
  then show ?thesis using sp pts out s'(1) by blast
qed

lemma sample_site_example: "sample_site (\<lambda>i. 1 / 2) 2 2 [1, 1, 1, 1] 0 = Some ((1, 1), 3)"
  by (subst sample_site.simps)
    (simp add: accepted_eval js_gt_def density_read_def candidate_def)

theorem positions_in_domain_witness:
  "\<exists>s1 s2. startSimulation nearest_site (\<lambda>i. 1 / 2) 1
              (initial_state\<lparr>width := 2, height := 2, density := [1, 1, 1, 1]\<rparr>)
            = Some (Returned s1)
         \<and> run_frames nearest_site 3 s1 = Returned s2 \<and> length (points s2) = 1
         \<and> list_all (in_domain 2 2) (points s2)"
proof -
  let ?s = "initial_state\<lparr>width := 2, height := 2, density := [1, 1, 1, 1]\<rparr>"
  let ?rnd = "\<lambda>i::nat. 1 / 2 :: real"
  have sp: "sample_points ?rnd 2 2 [1, 1, 1, 1] (Suc 0) [] 0 = Some ([(1, 1)], 3)"
    using sample_site_example by simp
  have "startSimulation nearest_site ?rnd 1 ?s
          = Some (animate nearest_site
              (?s\<lparr>nPoints := 1, points := [(1, 1)], draws := 3, isRunning := True\<rparr>))"
    using sp by (simp add: startSimulation_def initial_state_def)
  then obtain out where out: "startSimulation nearest_site ?rnd 1 ?s = Some out" by blast
  have h: "0 < width ?s" "0 < height ?s" "length (density ?s) = width ?s * height ?s"
    "unit_draws ?rnd" "(1::int) \<le> 1"
    by (simp_all add: unit_draws_def)
  from positions_in_domain [OF h out] obtain s1 where
    s1: "out = Returned s1"
    and fr: "\<forall>j. \<exists>s2. run_frames nearest_site j s1 = Returned s2 \<and> nextFrame s2 = nextFrame s1 + j
                \<and> length (points s2) = nat 1
                \<and> list_all (in_domain (width ?s) (height ?s)) (points s2)"
    by blast
  from fr obtain s2 where "run_frames nearest_site 3 s1 = Returned s2"
    "length (points s2) = nat 1" "list_all (in_domain (width ?s) (height ?s)) (points s2)"
    by blast
  then have "run_frames nearest_site 3 s1 = Returned s2 \<and> length (points s2) = 1
         \<and> list_all (in_domain 2 2) (points s2)" by simp
  then show ?thesis using out s1 by blast
qed

section \<open>A single site on a uniform field\<close>

lemma sweep_single_site:
  assumes "\<forall>x y h. fnd x y h = 0" and "\<forall>(x, y)\<in>set ps. y * W + x < length dens"
  shows "\<exists>a'. sweep fnd dens W ps \<lparr>nextIndex = h, newPoints = [sx, sy], weights = [sw]\<rparr> = Some a'
     \<and> newPoints a' =
          [sx + sum_list (map (\<lambda>(x, y). real x * max 0 (dens ! (y * W + x))) ps),
           sy + sum_list (map (\<lambda>(x, y). real y * max 0 (dens ! (y * W + x))) ps)]
     \<and> weights a' = [sw + sum_list (map (\<lambda>(x, y). max 0 (dens ! (y * W + x))) ps)]"
  using assms(2)
proof (induction ps arbitrary: h sx sy sw)
  case Nil
  then show ?case by simp
next
  case (Cons p ps)
  obtain x y where p: "p = (x, y)" by (cases p)
  have rd: "density_read dens (pixel_idx W x y) = Some (dens ! (y * W + x))"
    using Cons.prems p by (intro density_read_pixel) simp
  have rest: "\<forall>(x, y)\<in>set ps. y * W + x < length dens" using Cons.prems by simp
  let ?w = "dens ! (y * W + x)"
  show ?case
  proof (cases "?w \<le> 0")
    case True
    then have z: "max 0 ?w = 0" by simp
    from Cons.IH [OF rest, of h sx sy sw] show ?thesis using True rd p z by simp
  next
    case False
    then have z: "max 0 ?w = ?w" by simp
    have am: "add_mass \<lparr>nextIndex = h, newPoints = [sx, sy], weights = [sw]\<rparr> 0 x y ?w
        = \<lparr>nextIndex = 0, newPoints = [sx + real x * ?w, sy + real y * ?w], weights = [sw + ?w]\<rparr>"
      by (simp add: add_mass_def Let_def)
    from Cons.IH [OF rest, of 0 "sx + real x * ?w" "sy + real y * ?w" "sw + ?w"]
    show ?thesis using False rd p z assms(1) am by (simp add: add.assoc)
  qed
qed

lemma pixels_10_sums:
  "sum_list (map (\<lambda>(x, y). real x) (pixels 10 10)) = 450"
  "sum_list (map (\<lambda>(x, y). real y) (pixels 10 10)) = 450"
  "length (pixels 10 10) = 100"
  by (simp_all add: pixels_def upt_rec)


lemma uniform_weight:
  assumes "(x, y) \<in> set (pixels 10 10)"
  shows "y * 10 + x < length (replicate 100 (1::real)) \<and> replicate 100 (1::real) ! (y * 10 + x) = 1"
proof -
  have "x < 10" "y < 10" using assms by (simp_all add: set_pixels)
  then have "y * 10 + x < 10 * 10" by (rule pixel_idx_bound)
  then show ?thesis by simp
qed

lemma accumulate_uniform:
  assumes "\<forall>x y h. fnd [p] x y h = 0"
  shows "\<exists>a. accumulate fnd
             (initial_state\<lparr>width := 10, height := 10, density := replicate 100 1,
                points := [p], nPoints := 1, isRunning := True\<rparr>) = Some a
           \<and> newPoints a = [450, 450] \<and> weights a = [100]"
proof -
  let ?d = "replicate 100 (1::real)"
  have r: "\<forall>(x, y)\<in>set (pixels 10 10). y * 10 + x < length ?d"
    using uniform_weight by blast
  have f: "\<forall>x y h. fnd [p] x y h = 0" using assms .
  have e0: "map (\<lambda>(x, y). max 0 (?d ! (y * 10 + x))) (pixels 10 10)
              = map (\<lambda>(x, y). 1) (pixels 10 10)"
    by (rule map_cong) (use uniform_weight in auto)
  have e1: "map (\<lambda>(x, y). real x * max 0 (?d ! (y * 10 + x))) (pixels 10 10)
              = map (\<lambda>(x, y). real x) (pixels 10 10)"
    by (rule map_cong) (use uniform_weight in auto)
  have e2: "map (\<lambda>(x, y). real y * max 0 (?d ! (y * 10 + x))) (pixels 10 10)
              = map (\<lambda>(x, y). real y) (pixels 10 10)"
    by (rule map_cong) (use uniform_weight in auto)
  have s0: "sum_list (map (\<lambda>(x, y). 1 :: real) (pixels 10 10)) = 100"
    by (simp add: pixels_10_sums(3) sum_list_triv case_prod_unfold)
  from sweep_single_site [OF f r, of 0 0 0 0] obtain a where
    a: "sweep (fnd [p]) ?d 10 (pixels 10 10) \<lparr>nextIndex = 0, newPoints = [0, 0], weights = [0]\<rparr> = Some a"
    and n: "newPoints a = [0 + sum_list (map (\<lambda>(x, y). real x * max 0 (?d ! (y * 10 + x))) (pixels 10 10)),
           0 + sum_list (map (\<lambda>(x, y). real y * max 0 (?d ! (y * 10 + x))) (pixels 10 10))]"
    and w: "weights a = [0 + sum_list (map (\<lambda>(x, y). max 0 (?d ! (y * 10 + x))) (pixels 10 10))]"
    by blast
  have "newPoints a = [450, 450]" using n unfolding e1 e2 pixels_10_sums by simp
  moreover have "weights a = [100]" using w unfolding e0 s0 by simp
  moreover have "accumulate fnd (initial_state\<lparr>width := 10, height := 10, density := replicate 100 1,
                points := [p], nPoints := 1, isRunning := True\<rparr>) = Some a"
    using a by (simp add: accumulate_def fresh_acc_def numeral_2_eq_2)
  ultimately show ?thesis by blast
qed

text \<open>
  C2 (amended). On the 10 by 10 field whose weights are all 1, with a single site at any
  position \<open>p\<close> (the nearest-site query then answers 0), one iteration moves the site to
  (4.5, 4.5): the sweep adds the integer pixel coordinates 0, ..., 9, whose mean is 4.5.
\<close>

theorem uniform_field_single_site:
  assumes "\<forall>x y h. fnd [p] x y h = 0"
  shows "\<exists>s'. animate fnd
             (initial_state\<lparr>width := 10, height := 10, density := replicate 100 1,
                points := [p], nPoints := 1, isRunning := True\<rparr>) = Returned s'
           \<and> points s' = [(9 / 2, 9 / 2)]"
proof -
  let ?s = "(initial_state\<lparr>width := 10, height := 10, density := replicate 100 1,
                points := [p], nPoints := 1, isRunning := True\<rparr>)"
  from accumulate_uniform [of fnd p, OF assms] obtain a where
    a: "accumulate fnd ?s = Some a" "newPoints a = [450, 450]" "weights a = [100]" by blast
  have h: "isRunning ?s" "length (density ?s) = width ?s * height ?s"
    "int (length (points ?s)) = nPoints ?s" by simp_all
  from animate_returns [OF h, of fnd] obtain a' pts' m' where
    r: "accumulate fnd ?s = Some a'"
      "animate fnd ?s = Returned (?s\<lparr>points := pts', maxDistMoved := m',
            status := Some (toFixed2 (sqrt m')),
            animationId := Some (nextFrame ?s), pending := insert (nextFrame ?s) (pending ?s),
            nextFrame := Suc (nextFrame ?s)\<rparr>)"
      "length pts' = length (points ?s)"
      "\<forall>i<length (points ?s). pts' ! i = new_position a' (points ?s) i" by blast
  have "a' = a" using a(1) r(1) by simp
  then have "pts' ! 0 = new_position a [p] 0" using r(4) by simp
  then have "pts' ! 0 = (9 / 2, 9 / 2)" using a(2,3) by (simp add: new_position_def)
  moreover have "length pts' = 1" using r(3) by simp
  ultimately have "pts' = [(9 / 2, 9 / 2)]" by (cases pts') simp_all
  then show ?thesis using r(2) by simp
qed

theorem uniform_field_single_site_witness:
  "\<exists>s'. animate nearest_site
          (initial_state\<lparr>width := 10, height := 10, density := replicate 100 1,
                points := [(1, 2)], nPoints := 1, isRunning := True\<rparr>) = Returned s'
        \<and> points s' = [(9 / 2, 9 / 2)]"
proof -
  have "\<forall>x y h. nearest_site [(1, 2)] x y h = 0" by (simp add: nearest_site_def)
  then show ?thesis by (rule uniform_field_single_site [of nearest_site "(1, 2)"])
qed

text \<open>
  C2 as the specification states it fails: a site that starts at (5, 5) is at
  (4.5, 4.5) after one iteration, not at (5, 5).
\<close>

theorem uniform_field_centroid_counterexample:
  "map_option points (final (animate nearest_site
          (initial_state\<lparr>width := 10, height := 10, density := replicate 100 1,
                points := [(5, 5)], nPoints := 1, isRunning := True\<rparr>)))
     = Some [(9 / 2, 9 / 2)]
   \<and> [(9 / 2, 9 / 2)] \<noteq> [(5 :: real, 5 :: real)]"
proof -
  have "\<forall>x y h. nearest_site [(5, 5)] x y h = 0" by (simp add: nearest_site_def)
  from accumulate_uniform [of nearest_site "(5, 5)", OF this] obtain a where
    a: "accumulate nearest_site
          (initial_state\<lparr>width := 10, height := 10, density := replicate 100 1,
                points := [(5, 5)], nPoints := 1, isRunning := True\<rparr>) = Some a"
      "newPoints a = [450, 450]" "weights a = [100]" by blast
  have "relax a [0..<1] [(5, 5)] 0 = (None, [(9 / 2, 9 / 2)], 1 / 2)"
    using a(2,3) by (simp add: Let_def)
  then show ?thesis using a(1) by (simp add: animate_def)
qed

section \<open>A count that is not positive\<close>

text \<open>
  C8 (amended). \<open>startSimulation\<close> does not validate the count. On a loaded field, a
  call with N at most 0 places no site, stores N, empties \<open>points\<close>, cancels the pending
  frame of a running simulation, sets \<open>isRunning\<close> and enters the first iteration. For
  N = 0 that iteration completes on zero sites and requests the next animation frame, and
  the call returns normally. For N below 0 the iteration throws a RangeError when it
  allocates its buffers, which leaves the call with \<open>isRunning\<close> set and no frame
  requested.
\<close>

theorem nonpositive_count_not_rejected:
  assumes "n \<le> 0" and "0 < width s" and "0 < height s"
    and "length (density s) = width s * height s"
  shows "startSimulation fnd rnd n s =
     Some (if n = 0
           then Returned (s\<lparr>nPoints := 0, points := [],
                   pending := insert (nextFrame s)
                     (if isRunning s then pending s - set_option (animationId s) else pending s),
                   isRunning := True, maxDistMoved := 0, status := Some 0,
                   animationId := Some (nextFrame s), nextFrame := Suc (nextFrame s)\<rparr>)
           else Threw RangeError (s\<lparr>nPoints := n, status := None, points := [],
                   pending := (if isRunning s then pending s - set_option (animationId s)
                               else pending s),
                   isRunning := True\<rparr>))"
proof -
  let ?P = "if isRunning s then pending s - set_option (animationId s) else pending s"
  let ?s3 = "s\<lparr>nPoints := n, status := None, points := [], draws := draws s, pending := ?P, isRunning := True\<rparr>"
  have "nat n = 0" using assms(1) by simp
  then have sp: "sample_points rnd (width s) (height s) (density s) (nat n) [] (draws s)
                   = Some ([], draws s)" by simp
  have st: "startSimulation fnd rnd n s = Some (animate fnd ?s3)"
    using assms(2,3) sp by (rule startSimulation_sampled)
  show ?thesis
  proof (cases "n = 0")
    case False
    then have "nPoints ?s3 < 0" using assms(1) by simp
    then have "animate fnd ?s3 = Threw RangeError ?s3" by (simp add: animate_def)
    then show ?thesis using st False by simp
  next
    case True
    have h: "isRunning ?s3" "length (density ?s3) = width ?s3 * height ?s3"
      "int (length (points ?s3)) = nPoints ?s3" using assms(4) True by simp_all
    from animate_returns [OF h, of fnd] obtain pts' m' where
      r: "animate fnd ?s3 = Returned (?s3\<lparr>points := pts', maxDistMoved := m',
            status := Some (toFixed2 (sqrt m')),
            animationId := Some (nextFrame ?s3), pending := insert (nextFrame ?s3) (pending ?s3),
            nextFrame := Suc (nextFrame ?s3)\<rparr>)"
        "length pts' = length (points ?s3)"
        "m' = 0 \<or> (\<exists>i<length (points ?s3). m' = sqdist (points ?s3 ! i) (pts' ! i))" by blast
    have "pts' = []" using r(2) by simp
    moreover have "m' = 0" using r(3) by simp
    ultimately show ?thesis using st r(1) True by simp
  qed
qed

theorem nonpositive_count_not_rejected_witness:
  "startSimulation nearest_site (\<lambda>i. 1 / 2) (- 3)
     (initial_state\<lparr>width := 1, height := 1, density := [1]\<rparr>)
   = Some (Threw RangeError
      (initial_state\<lparr>width := 1, height := 1, density := [1], nPoints := - 3, isRunning := True\<rparr>))"
proof -
  let ?s = "initial_state\<lparr>width := 1, height := 1, density := [1]\<rparr>"
  have h: "(- 3 :: int) \<le> 0" "0 < width ?s" "0 < height ?s"
    "length (density ?s) = width ?s * height ?s" by simp_all
  show ?thesis
    using nonpositive_count_not_rejected [OF h, of nearest_site "\<lambda>i. 1 / 2"]
    by (simp add: initial_state_def)
qed

text \<open>
  C8 as the specification states it fails for N = 0 on a 1 by 1 field: the call
  returns normally, the simulation is running and the animation frame 0 is pending.
\<close>

theorem zero_count_starts_run_counterexample:
  "startSimulation nearest_site (\<lambda>i. 1 / 2) 0
     (initial_state\<lparr>width := 1, height := 1, density := [1]\<rparr>)
   = Some (Returned
      (initial_state\<lparr>width := 1, height := 1, density := [1], nPoints := 0, isRunning := True,
         status := Some 0, animationId := Some 0, pending := {0}, nextFrame := 1\<rparr>))"
  by (simp add: startSimulation_def animate_def accumulate_def pixels_def fresh_acc_def
      density_read_def pixel_idx_def nearest_site_def add_mass_def Let_def initial_state_def)

section \<open>Restarting while a frame is pending\<close>

lemma sched_invD:
  assumes "sched_inv s" "fid \<in> pending s"
  shows "fid < nextFrame s" "animationId s = Some fid"
  using assms unfolding sched_inv_def by blast+

lemma sched_inv_initial: "sched_inv initial_state"
  by (simp add: sched_inv_def initial_state_def)

lemma animate_sched:
  assumes "pending s = {}" and "final (animate fnd s) = Some s'"
  shows "sched_inv s' \<and> nextFrame s \<le> nextFrame s' \<and> (\<forall>fid\<in>pending s'. nextFrame s \<le> fid)"
proof (cases "isRunning s \<and> \<not> nPoints s < 0")
  case False
  then have "s' = s" using assms(2) by (auto simp: animate_def split: if_splits)
  then show ?thesis using assms(1) by (simp add: sched_inv_def)
next
  case True
  show ?thesis
  proof (cases "accumulate fnd s")
    case None
    then show ?thesis using True assms(2) by (simp add: animate_def)
  next
    case (Some a)
    obtain e pts m where r: "relax a [0..<nat (nPoints s)] (points s) 0 = (e, pts, m)"
      by (cases "relax a [0..<nat (nPoints s)] (points s) 0") auto
    show ?thesis
    proof (cases "e = None \<and> \<not> length pts < nat (nPoints s)")
      case False
      then have "s' = s\<lparr>points := pts\<rparr>"
        using True Some r assms(2) by (cases e) (auto simp: animate_def)
      then show ?thesis using assms(1) by (simp add: sched_inv_def)
    next
      case ok: True
      then have "s' = s\<lparr>points := pts, maxDistMoved := m, status := Some (toFixed2 (sqrt m)), animationId := Some (nextFrame s),
                     pending := insert (nextFrame s) (pending s), nextFrame := Suc (nextFrame s)\<rparr>"
        using True Some r assms(2) by (auto simp: animate_def)
      then show ?thesis using assms(1) True by (simp add: sched_inv_def)
    qed
  qed
qed

lemma cancel_empty:
  assumes "sched_inv s"
  shows "(if isRunning s then pending s - set_option (animationId s) else pending s) = {}"
  using assms by (auto simp: sched_inv_def)

lemma startSimulation_sched:
  assumes "sched_inv s" and "startSimulation fnd rnd n s = Some out" and "final out = Some s'"
  shows "sched_inv s' \<and> nextFrame s \<le> nextFrame s'
         \<and> (\<forall>fid\<in>pending s'. fid \<in> pending s \<or> nextFrame s \<le> fid)
         \<and> (width s \<noteq> 0 \<and> height s \<noteq> 0 \<longrightarrow> (\<forall>fid\<in>pending s'. nextFrame s \<le> fid))"
proof (cases "width s = 0 \<or> height s = 0")
  case True
  then have "s' = s" using assms(2,3) by (auto simp: startSimulation_def)
  then show ?thesis using assms(1) True by auto
next
  case False
  then have wh: "0 < width s" "0 < height s" by simp_all
  from False assms(2) obtain pts k where
    sp: "sample_points rnd (width s) (height s) (density s) (nat n) [] (draws s) = Some (pts, k)"
    by (auto simp: startSimulation_def split: option.splits)
  let ?s3 = "s\<lparr>nPoints := n, status := None, points := pts, draws := k,
                pending := (if isRunning s then pending s - set_option (animationId s)
                            else pending s),
                isRunning := True\<rparr>"
  have "startSimulation fnd rnd n s = Some (animate fnd ?s3)"
    using wh sp by (rule startSimulation_sampled)
  then have f: "final (animate fnd ?s3) = Some s'" using assms(2,3) by simp
  have p: "pending ?s3 = {}" using cancel_empty [OF assms(1)] by simp
  from animate_sched [OF p f] show ?thesis by simp
qed

lemma frame_sched:
  assumes "sched_inv s" and "fid \<in> pending s" and "final (frame fnd fid s) = Some s'"
  shows "sched_inv s' \<and> nextFrame s \<le> nextFrame s' \<and> (\<forall>fid\<in>pending s'. nextFrame s \<le> fid)"
proof -
  let ?s = "s\<lparr>pending := pending s - {fid}\<rparr>"
  have "pending s \<subseteq> {fid}"
  proof
    fix x assume x: "x \<in> pending s"
    have "animationId s = Some x" "animationId s = Some fid"
      using sched_invD(2) [OF assms(1)] assms(2) x by blast+
    then show "x \<in> {fid}" by simp
  qed
  then have p: "pending ?s = {}" by auto
  have f: "final (animate fnd ?s) = Some s'" using assms(3) by (simp add: frame_def)
  from animate_sched [OF p f] show ?thesis by simp
qed

lemma step_sched:
  assumes "step fnd rnd s s'" and "sched_inv s"
  shows "sched_inv s' \<and> nextFrame s \<le> nextFrame s'
         \<and> (\<forall>fid\<in>pending s'. fid \<in> pending s \<or> nextFrame s \<le> fid)"
  using assms
proof (cases rule: step.cases)
  case (step_start n out)
  from startSimulation_sched [OF assms(2) step_start] show ?thesis by blast
next
  case (step_load d W H n out)
  let ?s = "s\<lparr>width := W, height := H, density := d\<rparr>"
  have "sched_inv ?s" using assms(2) by (simp add: sched_inv_def)
  from startSimulation_sched [OF this step_load(2,3)] show ?thesis by simp
next
  case (step_load_failed W H)
  then show ?thesis using assms(2) by (simp add: sched_inv_def)
next
  case (step_frame fid)
  from frame_sched [OF assms(2) step_frame] show ?thesis by blast
qed

lemma steps_sched:
  assumes "steps fnd rnd s s'" and "sched_inv s"
  shows "sched_inv s' \<and> nextFrame s \<le> nextFrame s'
         \<and> (\<forall>fid\<in>pending s'. fid \<in> pending s \<or> nextFrame s \<le> fid)"
  using assms
proof (induction rule: steps.induct)
  case (steps_refl s)
  then show ?case by simp
next
  case (steps_step s s' s'')
  have a: "sched_inv s'" "nextFrame s \<le> nextFrame s'"
    "\<forall>fid\<in>pending s'. fid \<in> pending s \<or> nextFrame s \<le> fid"
    using steps_step.IH steps_step.prems by simp_all
  from step_sched [OF steps_step.hyps(2) a(1)] have b: "sched_inv s''" "nextFrame s' \<le> nextFrame s''"
    "\<forall>fid\<in>pending s''. fid \<in> pending s' \<or> nextFrame s' \<le> fid" by simp_all
  have "\<forall>fid\<in>pending s''. fid \<in> pending s \<or> nextFrame s \<le> fid"
  proof
    fix fid assume "fid \<in> pending s''"
    then consider "fid \<in> pending s'" | "nextFrame s' \<le> fid" using b(3) by blast
    then show "fid \<in> pending s \<or> nextFrame s \<le> fid"
    proof cases
      case 1 then show ?thesis using a(3) by blast
    next
      case 2 then show ?thesis using a(2) by simp
    qed
  qed
  then show ?case using b(1,2) a(2) by simp
qed

lemma reachable_sched:
  assumes "reachable fnd rnd s"
  shows "sched_inv s"
  using steps_sched [OF assms [unfolded reachable_def] sched_inv_initial] by simp

text \<open>
  C9. Cancellation. Let \<open>s0\<close> be any state the page can reach, and let \<open>startSimulation\<close>
  be called again, either by the slider on \<open>s0\<close> itself or by the load of a new image,
  which has replaced \<open>width\<close>, \<open>height\<close> and \<open>density\<close> first; let the image not be empty
  and the call end in \<open>s1\<close>. Then in every state \<open>s2\<close> the page can reach from \<open>s1\<close>, no
  animation frame that was pending in \<open>s0\<close> is pending: every pending frame was requested
  by the new run or later. The browser only runs pending frames, and \<open>animate\<close> and
  \<open>startSimulation\<close> run to completion without interleaving, so an iteration of the
  previous run never runs after the restart: it neither draws nor writes \<open>points\<close>.
\<close>

theorem stale_frame_never_runs:
  assumes "reachable fnd rnd s0"
    and "s = s0 \<or> s = s0\<lparr>width := W, height := H, density := d\<rparr>"
    and "width s \<noteq> 0" and "height s \<noteq> 0"
    and "startSimulation fnd rnd n s = Some out" and "final out = Some s1"
    and "steps fnd rnd s1 s2"
  shows "pending s2 \<inter> pending s0 = {} \<and> (\<forall>fid\<in>pending s2. nextFrame s0 \<le> fid)"
proof -
  have i0: "sched_inv s0" using assms(1) by (rule reachable_sched)
  have same: "pending s = pending s0" "nextFrame s = nextFrame s0" "sched_inv s"
    using assms(2) i0 by (auto simp: sched_inv_def)
  from startSimulation_sched [OF same(3) assms(5,6)] have
    a: "sched_inv s1" "nextFrame s0 \<le> nextFrame s1" "\<forall>fid\<in>pending s1. nextFrame s0 \<le> fid"
    using assms(3,4) same(2) by simp_all
  from steps_sched [OF assms(7) a(1)] have
    b: "\<forall>fid\<in>pending s2. fid \<in> pending s1 \<or> nextFrame s1 \<le> fid" by simp
  have new: "\<forall>fid\<in>pending s2. nextFrame s0 \<le> fid"
  proof
    fix fid assume "fid \<in> pending s2"
    then consider "fid \<in> pending s1" | "nextFrame s1 \<le> fid" using b by blast
    then show "nextFrame s0 \<le> fid"
    proof cases
      case 1 then show ?thesis using a(3) by blast
    next
      case 2 then show ?thesis using a(2) by simp
    qed
  qed
  have old: "\<forall>fid\<in>pending s0. fid < nextFrame s0" using sched_invD(1) [OF i0] by blast
  have "pending s2 \<inter> pending s0 = {}"
  proof (rule ccontr)
    assume "pending s2 \<inter> pending s0 \<noteq> {}"
    then obtain fid where "fid \<in> pending s2" "fid \<in> pending s0" by blast
    then have "nextFrame s0 \<le> fid" "fid < nextFrame s0" using new old by blast+
    then show False by simp
  qed
  then show ?thesis using new by blast
qed

lemma sample_site_unit: "sample_site (\<lambda>i. 1 / 2) 1 1 [1] k = Some ((1 / 2, 1 / 2), k + 3)"
  by (subst sample_site.simps)
    (simp add: accepted_eval js_gt_def density_read_def candidate_def)

lemma sample_site_pair: "sample_site (\<lambda>i. 1 / 2) 2 1 [1, 1] k = Some ((1, 1 / 2), k + 3)"
  by (subst sample_site.simps)
    (simp add: accepted_eval js_gt_def density_read_def candidate_def)

lemma restart_example_first:
  "startSimulation nearest_site (\<lambda>i. 1 / 2) 1
     (initial_state\<lparr>width := 1, height := 1, density := [1]\<rparr>)
   = Some (Returned
     (initial_state\<lparr>width := 1, height := 1, density := [1], nPoints := 1,
        points := [(0, 0)], draws := 3, isRunning := True, maxDistMoved := 1 / 2,
        status := Some (71 / 100), animationId := Some 0, pending := {0}, nextFrame := 1\<rparr>))"
  using sample_site_unit [of 0]
  by (simp add: startSimulation_def animate_def accumulate_def pixels_def fresh_acc_def
      density_read_def pixel_idx_def nearest_site_def dist2_def add_mass_def Let_def
      initial_state_def numeral_2_eq_2)

lemma restart_example_second:
  "startSimulation nearest_site (\<lambda>i. 1 / 2) 1
     ((initial_state\<lparr>width := 1, height := 1, density := [1], nPoints := 1,
        points := [(0, 0)], draws := 3, isRunning := True, maxDistMoved := 1 / 2,
        status := Some (71 / 100), animationId := Some 0, pending := {0}, nextFrame := 1\<rparr>)
        \<lparr>width := 2, height := 1, density := [1, 1]\<rparr>)
   = Some (Returned
     (initial_state\<lparr>width := 2, height := 1, density := [1, 1], nPoints := 1,
        points := [(1 / 2, 0)], draws := 6, isRunning := True, maxDistMoved := 1 / 2,
        status := Some (71 / 100), animationId := Some 1, pending := {1}, nextFrame := 2\<rparr>))"
  using sample_site_pair [of 3]
  by (simp add: startSimulation_def animate_def accumulate_def pixels_def upt_rec fresh_acc_def
      density_read_def pixel_idx_def nearest_site_def dist2_def add_mass_def Let_def
      initial_state_def eval_nat_numeral)

theorem stale_frame_never_runs_witness:
  "startSimulation nearest_site (\<lambda>i. 1 / 2) 1
     ((initial_state\<lparr>width := 1, height := 1, density := [1], nPoints := 1,
        points := [(0, 0)], draws := 3, isRunning := True, maxDistMoved := 1 / 2,
        status := Some (71 / 100), animationId := Some 0, pending := {0}, nextFrame := 1\<rparr>)
        \<lparr>width := 2, height := 1, density := [1, 1]\<rparr>)
   = Some (Returned
     (initial_state\<lparr>width := 2, height := 1, density := [1, 1], nPoints := 1,
        points := [(1 / 2, 0)], draws := 6, isRunning := True, maxDistMoved := 1 / 2,
        status := Some (71 / 100), animationId := Some 1, pending := {1}, nextFrame := 2\<rparr>))
   \<and> pending
     (initial_state\<lparr>width := 2, height := 1, density := [1, 1], nPoints := 1,
        points := [(1 / 2, 0)], draws := 6, isRunning := True, maxDistMoved := 1 / 2,
        status := Some (71 / 100), animationId := Some 1, pending := {1}, nextFrame := 2\<rparr>)
   \<inter> pending
     (initial_state\<lparr>width := 1, height := 1, density := [1], nPoints := 1,
        points := [(0, 0)], draws := 3, isRunning := True, maxDistMoved := 1 / 2,
        status := Some (71 / 100), animationId := Some 0, pending := {0}, nextFrame := 1\<rparr>) = {}"
proof -
  let ?rnd = "\<lambda>i::nat. 1 / 2 :: real"
  let ?sa = "(initial_state\<lparr>width := 1, height := 1, density := [1], nPoints := 1,
        points := [(0, 0)], draws := 3, isRunning := True, maxDistMoved := 1 / 2,
        status := Some (71 / 100), animationId := Some 0, pending := {0}, nextFrame := 1\<rparr>)"
  let ?s1 = "(initial_state\<lparr>width := 2, height := 1, density := [1, 1], nPoints := 1,
        points := [(1 / 2, 0)], draws := 6, isRunning := True, maxDistMoved := 1 / 2,
        status := Some (71 / 100), animationId := Some 1, pending := {1}, nextFrame := 2\<rparr>)"
  have l: "length [1 :: real] = 1 * 1" by simp
  have "step nearest_site ?rnd initial_state ?sa"
    using step_load [of "[1]" 1 1 nearest_site ?rnd 1 initial_state "Returned ?sa" ?sa]
      l restart_example_first by simp
  then have "steps nearest_site ?rnd initial_state ?sa"
    using steps_refl [of nearest_site ?rnd initial_state] steps_step by blast
  then have r: "reachable nearest_site ?rnd ?sa" by (simp add: reachable_def)
  let ?s = "?sa\<lparr>width := 2, height := 1, density := [1, 1]\<rparr>"
  have c: "?s = ?sa \<or> ?s = ?sa\<lparr>width := 2, height := 1, density := [1, 1]\<rparr>" by simp
  have w: "width ?s \<noteq> 0" "height ?s \<noteq> 0" by simp_all
  have f: "final (Returned ?s1) = Some ?s1" by simp
  have st: "steps nearest_site ?rnd ?s1 ?s1" by (rule steps_refl)
  from stale_frame_never_runs [OF r c w restart_example_second f st]
  have "pending ?s1 \<inter> pending ?sa = {}" by blast
  then show ?thesis using restart_example_second by blast
qed

section \<open>Reads of the density array\<close>

lemma sweep_returns:
  assumes "\<forall>(x, y)\<in>set ps. y * W + x < length dens"
  shows "\<exists>a'. sweep fnd dens W ps a = Some a'"
  using assms
proof (induction ps arbitrary: a)
  case Nil
  then show ?case by simp
next
  case (Cons p ps)
  obtain x y where p: "p = (x, y)" by (cases p)
  have rd: "density_read dens (pixel_idx W x y) = Some (dens ! (y * W + x))"
    using Cons.prems p by (intro density_read_pixel) simp
  have rest: "\<forall>(x, y)\<in>set ps. y * W + x < length dens" using Cons.prems by simp
  show ?case
  proof (cases "dens ! (y * W + x) \<le> 0")
    case True
    from Cons.IH [OF rest, of a] show ?thesis using True rd p by simp
  next
    case False
    from Cons.IH [OF rest, of "add_mass a (fnd (real x) (real y) (nextIndex a)) x y (dens ! (y * W + x))"]
    show ?thesis using False rd p by simp
  qed
qed

text \<open>
  C10. For a field of W by H weights with W and H at least 1, every read of the density
  array is inside the array. In the sampler the index \<open>floor y * W + floor x\<close> of a draw
  \<open>x\<close> in [0, W), \<open>y\<close> in [0, H) lies in [0, W * H), so the read of every candidate
  that \<open>startSimulation\<close> draws from numbers in [0, 1) gives a weight and never
  \<open>undefined\<close>. In the sweep the index \<open>y * W + x\<close> of a pixel \<open>x < W\<close>, \<open>y < H\<close> lies in
  [0, W * H), so the sweep over the image never meets \<open>undefined\<close>, whatever the
  nearest-site query answers and whatever the buffers hold.
\<close>

theorem density_reads_in_bounds:
  assumes "1 \<le> W" "1 \<le> H" "length dens = W * H"
  shows "(\<forall>x y. 0 \<le> x \<and> x < real W \<and> 0 \<le> y \<and> y < real H \<longrightarrow>
            0 \<le> sample_idx W x y \<and> sample_idx W x y < int (W * H) \<and>
            density_read dens (sample_idx W x y) = Some (dens ! nat (sample_idx W x y)))
       \<and> (\<forall>x y. x < W \<and> y < H \<longrightarrow>
            0 \<le> pixel_idx W x y \<and> pixel_idx W x y < int (W * H) \<and>
            density_read dens (pixel_idx W x y) = Some (dens ! (y * W + x)))
       \<and> (\<forall>rnd k. unit_draws rnd \<longrightarrow>
            density_read dens
              (sample_idx W (fst (candidate rnd W H k)) (snd (candidate rnd W H k))) \<noteq> None)
       \<and> (\<forall>fnd a. sweep fnd dens W (pixels W H) a \<noteq> None)"
proof -
  have s: "0 \<le> sample_idx W x y \<and> sample_idx W x y < int (W * H) \<and>
            density_read dens (sample_idx W x y) = Some (dens ! nat (sample_idx W x y))"
    if h: "0 \<le> x \<and> x < real W \<and> 0 \<le> y \<and> y < real H" for x y
  proof -
    have b: "0 \<le> sample_idx W x y \<and> sample_idx W x y < int (W * H)"
      using h by (intro sample_idx_bound) simp_all
    then show ?thesis using assms(3) by (simp add: density_read_def)
  qed
  have px: "0 \<le> pixel_idx W x y \<and> pixel_idx W x y < int (W * H) \<and>
            density_read dens (pixel_idx W x y) = Some (dens ! (y * W + x))"
    if h: "x < W \<and> y < H" for x y
  proof -
    have b: "y * W + x < W * H" using h by (intro pixel_idx_bound) simp_all
    then have "y * W + x < length dens" using assms(3) by simp
    then have "density_read dens (pixel_idx W x y) = Some (dens ! (y * W + x))"
      by (rule density_read_pixel)
    moreover have "pixel_idx W x y < int (W * H)"
      using b by (simp only: pixel_idx_def of_nat_less_iff)
    ultimately show ?thesis by (simp add: pixel_idx_def)
  qed
  have sm: "density_read dens
              (sample_idx W (fst (candidate rnd W H k)) (snd (candidate rnd W H k))) \<noteq> None"
    if u: "unit_draws rnd" for rnd k
  proof -
    have "in_domain W H (candidate rnd W H k)"
      using u assms(1,2) by (intro candidate_in_domain) simp_all
    then have "0 \<le> fst (candidate rnd W H k) \<and> fst (candidate rnd W H k) < real W
        \<and> 0 \<le> snd (candidate rnd W H k) \<and> snd (candidate rnd W H k) < real H"
      by (simp add: in_domain_def)
    from s [OF this] show ?thesis by simp
  qed
  have sw: "sweep fnd dens W (pixels W H) a \<noteq> None" for fnd a
    using sweep_returns [OF pixels_in_range [OF assms(3)], of fnd a] by auto
  show ?thesis using s px sm sw by blast
qed

theorem density_reads_in_bounds_witness:
  "sample_idx 2 (3 / 2) (1 / 2) = 1
   \<and> density_read [1 / 4, 1 / 2, 3 / 4, 1] (sample_idx 2 (3 / 2) (1 / 2)) = Some (1 / 2)
   \<and> density_read [1 / 4, 1 / 2, 3 / 4, 1] (pixel_idx 2 1 1) = Some 1
   \<and> sweep (nearest_site [(0, 0)]) [1 / 4, 1 / 2, 3 / 4, 1] 2 (pixels 2 2) (fresh_acc 1) \<noteq> None"
proof -
  have a: "(1::nat) \<le> 2" by simp
  have l: "length [1 / 4, 1 / 2, 3 / 4, 1 :: real] = 2 * 2" by simp
  note t = density_reads_in_bounds [OF a a l]
  have s: "sample_idx 2 (3 / 2) (1 / 2) = 1" by (simp add: sample_idx_def)
  have "density_read [1 / 4, 1 / 2, 3 / 4, 1] (sample_idx 2 (3 / 2) (1 / 2))
          = Some ([1 / 4, 1 / 2, 3 / 4, 1 :: real] ! nat (sample_idx 2 (3 / 2) (1 / 2)))"
    using t by simp
  moreover have "density_read [1 / 4, 1 / 2, 3 / 4, 1] (pixel_idx 2 1 1)
          = Some ([1 / 4, 1 / 2, 3 / 4, 1 :: real] ! (1 * 2 + 1))"
    using t by simp
  moreover have "sweep (nearest_site [(0, 0)]) [1 / 4, 1 / 2, 3 / 4, 1] 2 (pixels 2 2) (fresh_acc 1)
          \<noteq> None"
    using t by blast
  ultimately show ?thesis using s by simp
qed

end
